theory Spec2Isabelle
  imports Main
begin

section \<open>Strings and characters\<close>

text \<open>
  Paths, URLs, file contents and identifiers are \<^typ>\<open>string\<close>s: a character stands
  for a code unit below 256.  The character classes below are the JavaScript classes
  of the source on those code units; its regular expressions carry no \<open>u\<close> or \<open>i\<close> flag,
  and \<open>\w\<close> is ASCII in any case.
\<close>

type_synonym path = string

definition charCode :: "char \<Rightarrow> nat" where
  "charCode c = of_char c"

text \<open>
  \<open>String.prototype.toUpperCase\<close> on one ASCII character: \<open>a\<close>..\<open>z\<close> lose bit 5.
  Beyond ASCII the source's function also changes accented letters, some of them into
  two characters or into a code unit above 255; the statements below that speak of
  upper-casing are therefore about ASCII characters.
\<close>

definition toUpperChar :: "char \<Rightarrow> char" where
  "toUpperChar c =
     (if 97 \<le> charCode c \<and> charCode c \<le> 122
      then (case c of Char b0 b1 b2 b3 b4 b5 b6 b7 \<Rightarrow> Char b0 b1 b2 b3 b4 False b6 b7)
      else c)"

text \<open>
  \<open>\s\<close>, which is also the white space \<open>parseInt\<close> skips: tab, line feed, vertical tab,
  form feed, carriage return, space and the no-break space.
\<close>

definition isSpace :: "char \<Rightarrow> bool" where
  "isSpace c =
     ((9 \<le> charCode c \<and> charCode c \<le> 13) \<or> charCode c = 32 \<or> charCode c = 160)"

text \<open>\<open>\w\<close>: \<open>[A-Za-z0-9_]\<close>.\<close>

definition isWord :: "char \<Rightarrow> bool" where
  "isWord c =
     ((48 \<le> charCode c \<and> charCode c \<le> 57) \<or> (65 \<le> charCode c \<and> charCode c \<le> 90) \<or>
      charCode c = 95 \<or> (97 \<le> charCode c \<and> charCode c \<le> 122))"

text \<open>The characters \<open>.\<close> does not match: line feed and carriage return.\<close>

definition isLineTerminator :: "char \<Rightarrow> bool" where
  "isLineTerminator c = (charCode c = 10 \<or> charCode c = 13)"

text \<open>\<open>[-_]\<close>.\<close>

definition isSeparator :: "char \<Rightarrow> bool" where
  "isSeparator c = (c = CHR ''-'' \<or> c = CHR ''_'')"

text \<open>\<open>String.prototype.split\<close> with a one-character separator: never the empty list.\<close>

fun splitOn :: "char \<Rightarrow> string \<Rightarrow> string list" where
  "splitOn sep [] = [[]]"
| "splitOn sep (c # cs) =
     (if c = sep then [] # splitOn sep cs
      else (case splitOn sep cs of
              [] \<Rightarrow> [[c]]
            | s # ss \<Rightarrow> (c # s) # ss))"

text \<open>\<open>String.prototype.endsWith\<close>.\<close>

definition endsWith :: "string \<Rightarrow> string \<Rightarrow> bool" where
  "endsWith s suffix =
     (length suffix \<le> length s \<and> drop (length s - length suffix) s = suffix)"

section \<open>URL resolution (utils/pluralize.ts)\<close>

text \<open>
  The npm package \<open>pluralize\<close> is an external dependency; its two functions used by the
  source enter the model as a parameter.
\<close>

record inflector =
  isPlural :: "string \<Rightarrow> bool"
  singular :: "string \<Rightarrow> string"

text \<open>
  \<open>str.replace(/[-_]+(.)?/g, (_, char) => (char ? char.toUpperCase() : ''))\<close>, as one
  pass over the string.  The flag says that a run of separators has just been consumed:
  the run is dropped, and the character after it is the group \<open>(.)?\<close>, upper-cased
  unless it is a line terminator (which \<open>.\<close> does not match, so it stays as it is).
\<close>

fun replaceSeparators :: "bool \<Rightarrow> string \<Rightarrow> string" where
  "replaceSeparators afterRun [] = []"
| "replaceSeparators afterRun (c # cs) =
     (if isSeparator c then replaceSeparators True cs
      else if afterRun \<and> \<not> isLineTerminator c then toUpperChar c # replaceSeparators False cs
      else c # replaceSeparators False cs)"

text \<open>\<open>.replace(/^(.)/, (char) => char.toUpperCase())\<close>.\<close>

fun upperFirst :: "string \<Rightarrow> string" where
  "upperFirst [] = []"
| "upperFirst (c # cs) = (if isLineTerminator c then c # cs else toUpperChar c # cs)"

definition toPascalCase :: "string \<Rightarrow> string" where
  "toPascalCase str = upperFirst (replaceSeparators False str)"

text \<open>\<open>url.split('/').filter(Boolean)\<close>, then the last segment or \<open>''\<close>.\<close>

definition extractLastSegment :: "string \<Rightarrow> string" where
  "extractLastSegment url =
     (let segments = filter (\<lambda>s. s \<noteq> []) (splitOn (CHR ''/'') url)
      in if segments = [] then [] else last segments)"

record typeRef =
  typeName :: string
  isArray :: bool

definition urlSegmentToTypeName :: "inflector \<Rightarrow> string \<Rightarrow> typeRef" where
  "urlSegmentToTypeName infl urlSegment =
     (let isPl = isPlural infl urlSegment;
          sing = (if isPl then singular infl urlSegment else urlSegment)
      in \<lparr>typeName = toPascalCase sing, isArray = isPl\<rparr>)"

definition parseUrlToType :: "inflector \<Rightarrow> string \<Rightarrow> typeRef" where
  "parseUrlToType infl url = urlSegmentToTypeName infl (extractLastSegment url)"

text \<open>
  A stand-in for \<open>pluralize\<close> built from a table of plural forms: a word is plural when
  the table lists it, and its singular is the table's entry.
\<close>

definition tableInflector :: "(string \<times> string) list \<Rightarrow> inflector" where
  "tableInflector tbl =
     \<lparr>isPlural = (\<lambda>w. map_of tbl w \<noteq> None),
      singular = (\<lambda>w. case map_of tbl w of None \<Rightarrow> w | Some s \<Rightarrow> s)\<rparr>"

definition sampleInflector :: inflector where
  "sampleInflector =
     tableInflector
       [(''users'', ''user''), (''people'', ''person''), (''children'', ''child''),
        (''user-profiles'', ''user-profile''), (''orders'', ''order'')]"

text \<open>
  \<open>pluralize\<close> on an uncountable noun: \<open>isPlural('sheep')\<close> is true and
  \<open>singular('sheep')\<close> is \<open>'sheep'\<close>.
\<close>

definition uncountableInflector :: inflector where
  "uncountableInflector = tableInflector [(''sheep'', ''sheep'')]"

section \<open>The filesystem\<close>

text \<open>
  What \<open>fs.readdirSync(dir, { withFileTypes: true })\<close> yields, as a tree.  A regular file
  carries what \<open>fs.readFileSync\<close> returns for it, \<open>None\<close> when that call throws (the file
  cannot be read).  A directory carries its entries; \<open>UnlistableDirectory\<close> is a directory
  on which \<open>readdirSync\<close> throws.  \<open>OtherEntry\<close> is an entry for which both
  \<open>isDirectory()\<close> and \<open>isFile()\<close> are false (a symbolic link, a socket, a pipe).
\<close>

datatype dirent =
    RegularFile string "string option"
  | Directory string "dirent list"
  | UnlistableDirectory string
  | OtherEntry string

text \<open>
  What a path handed to the scanner denotes: nothing (\<open>fs.existsSync\<close> is false),
  something on which \<open>readdirSync\<close> throws (a regular file, a directory without read
  permission), or a directory with its entries.
\<close>

datatype root = Absent | Unlistable | Listing "dirent list"

type_synonym filesystem = "path \<Rightarrow> root"

text \<open>The exceptions of the \<open>fs\<close> calls.\<close>

datatype fsError = ReaddirFailed path | ReadFileFailed path

text \<open>A scanned file: its full path, and what reading it yields.\<close>

type_synonym sourceFile = "path \<times> string option"

text \<open>
  \<open>path.join(currentDir, entry.name)\<close> for a normalised directory path and an entry name
  (which holds no separator): the two joined by one \<open>/\<close>.  \<open>path.join\<close> also
  normalises its result (repeated separators, \<open>.\<close> and \<open>..\<close>); the directories the
  command line hands on come from \<open>path.resolve\<close> and are normalised already.
\<close>

definition pathJoin :: "path \<Rightarrow> string \<Rightarrow> path" where
  "pathJoin dir name =
     (if dir = [] then name
      else if last dir = CHR ''/'' then dir @ name
      else dir @ ''/'' @ name)"

section \<open>Type mapping (utils/typeMapping.ts)\<close>

definition ignoredDirectories :: "string list" where
  "ignoredDirectories = [''node_modules'', ''dist'', ''build'', ''.git'']"

text \<open>
  The body of the loop of \<open>scan\<close> for one entry, and the loop.  The source pushes onto
  one array shared by all recursive calls; an exception abandons it.
\<close>

fun scanEntry :: "path \<Rightarrow> dirent \<Rightarrow> fsError + sourceFile list"
  and scanEntries :: "path \<Rightarrow> dirent list \<Rightarrow> fsError + sourceFile list" where
  "scanEntry currentDir (Directory name entries) =
     (if name \<in> set ignoredDirectories then Inr []
      else scanEntries (pathJoin currentDir name) entries)"
| "scanEntry currentDir (UnlistableDirectory name) =
     (if name \<in> set ignoredDirectories then Inr []
      else Inl (ReaddirFailed (pathJoin currentDir name)))"
| "scanEntry currentDir (RegularFile name content) =
     (if endsWith name ''.ts'' then Inr [(pathJoin currentDir name, content)] else Inr [])"
| "scanEntry currentDir (OtherEntry name) = Inr []"
| "scanEntries currentDir [] = Inr []"
| "scanEntries currentDir (e # es) =
     (case scanEntry currentDir e of
        Inl err \<Rightarrow> Inl err
      | Inr found \<Rightarrow>
          (case scanEntries currentDir es of
             Inl err \<Rightarrow> Inl err
           | Inr rest \<Rightarrow> Inr (found @ rest)))"

definition findTypeScriptFiles :: "filesystem \<Rightarrow> path \<Rightarrow> fsError + sourceFile list" where
  "findTypeScriptFiles fs dir =
     (case fs dir of
        Absent \<Rightarrow> Inr []
      | Unlistable \<Rightarrow> Inl (ReaddirFailed dir)
      | Listing entries \<Rightarrow> scanEntries dir entries)"

subsection \<open>The regular expression \<open>/export\s+interface\s+(\w+)/g\<close>\<close>

fun stripPrefix :: "string \<Rightarrow> string \<Rightarrow> string option" where
  "stripPrefix [] s = Some s"
| "stripPrefix (p # ps) [] = None"
| "stripPrefix (p # ps) (c # cs) = (if p = c then stripPrefix ps cs else None)"

text \<open>
  A match starting at the head of the string: the captured group and the text after the
  match.  Each \<open>+\<close> is greedy, and no shorter run can succeed where the longest fails:
  the literal \<open>interface\<close> and the class \<open>\w\<close> hold no white space.
\<close>

definition matchAt :: "string \<Rightarrow> (string \<times> string) option" where
  "matchAt s =
     (case stripPrefix ''export'' s of
        None \<Rightarrow> None
      | Some r1 \<Rightarrow>
          if takeWhile isSpace r1 = [] then None
          else (case stripPrefix ''interface'' (dropWhile isSpace r1) of
                  None \<Rightarrow> None
                | Some r2 \<Rightarrow>
                    if takeWhile isSpace r2 = [] then None
                    else (let r3 = dropWhile isSpace r2
                          in if takeWhile isWord r3 = [] then None
                             else Some (takeWhile isWord r3, dropWhile isWord r3))))"

lemma stripPrefix_length: "stripPrefix p s = Some r \<Longrightarrow> length s = length p + length r"
  by (induction p s rule: stripPrefix.induct) (auto split: if_splits)

lemma matchAt_shorter: "matchAt s = Some (w, r) \<Longrightarrow> length r < length s"
proof -
  assume m: "matchAt s = Some (w, r)"
  from m obtain r1 where r1: "stripPrefix ''export'' s = Some r1"
    by (auto simp: matchAt_def split: option.splits)
  from m r1 obtain r2 where r2: "stripPrefix ''interface'' (dropWhile isSpace r1) = Some r2"
    by (auto simp: matchAt_def split: option.splits if_splits)
  from m r1 r2 have r: "r = dropWhile isWord (dropWhile isSpace r2)"
    by (auto simp: matchAt_def Let_def split: option.splits if_splits)
  have "length r \<le> length r2"
    unfolding r by (meson length_dropWhile_le order_trans)
  moreover have "length r2 \<le> length r1"
    using stripPrefix_length [OF r2] length_dropWhile_le [of isSpace r1] by simp
  moreover have "length r1 < length s"
    using stripPrefix_length [OF r1] by simp
  ultimately show ?thesis by simp
qed

text \<open>
  The loop \<open>while ((match = interfaceRegex.exec(content)) !== null)\<close>: \<open>exec\<close> finds the
  leftmost match at or after \<open>lastIndex\<close> and moves \<open>lastIndex\<close> to its end.
\<close>

function execAll :: "string \<Rightarrow> string list" where
  "execAll s =
     (case matchAt s of
        Some m \<Rightarrow> fst m # execAll (snd m)
      | None \<Rightarrow> (case s of [] \<Rightarrow> [] | c # cs \<Rightarrow> execAll cs))"
  by pat_completeness auto
termination execAll
  by (relation "measure length") (auto dest: matchAt_shorter)

declare execAll.simps [simp del]

text \<open>\<open>extractInterfaceNames\<close>: a file that cannot be read raises.\<close>

definition extractInterfaceNames :: "sourceFile \<Rightarrow> fsError + string list" where
  "extractInterfaceNames file =
     (case snd file of
        None \<Rightarrow> Inl (ReadFileFailed (fst file))
      | Some content \<Rightarrow> Inr (filter (\<lambda>m. m \<noteq> []) (execAll content)))"

type_synonym typeMap = "string \<rightharpoonup> path"

text \<open>The three nested loops of \<open>buildTypeMap\<close>, innermost first.\<close>

fun addInterfaces :: "path \<Rightarrow> string list \<Rightarrow> typeMap \<Rightarrow> typeMap" where
  "addInterfaces file [] tm = tm"
| "addInterfaces file (interfaceName # names) tm =
     addInterfaces file names
       (if tm interfaceName \<noteq> None then tm else tm(interfaceName \<mapsto> file))"

fun addFiles :: "sourceFile list \<Rightarrow> typeMap \<Rightarrow> fsError + typeMap" where
  "addFiles [] tm = Inr tm"
| "addFiles (file # files) tm =
     (case extractInterfaceNames file of
        Inl err \<Rightarrow> Inl err
      | Inr interfaces \<Rightarrow> addFiles files (addInterfaces (fst file) interfaces tm))"

fun addDirectories :: "filesystem \<Rightarrow> path list \<Rightarrow> typeMap \<Rightarrow> fsError + typeMap" where
  "addDirectories fs [] tm = Inr tm"
| "addDirectories fs (dir # dirs) tm =
     (case findTypeScriptFiles fs dir of
        Inl err \<Rightarrow> Inl err
      | Inr files \<Rightarrow>
          (case addFiles files tm of
             Inl err \<Rightarrow> Inl err
           | Inr tm' \<Rightarrow> addDirectories fs dirs tm'))"

definition buildTypeMap :: "filesystem \<Rightarrow> path list \<Rightarrow> fsError + typeMap" where
  "buildTypeMap fs directories = addDirectories fs directories Map.empty"

text \<open>
  Modelled from the spec: the interfaces \<open>RouteTypeMapping\<close>, \<open>ParsedSchema\<close> and
  \<open>ServerConfig\<close> of \<open>types/config.ts\<close>, a file that is not among the sources.  The
  records below carry the fields the source reads and writes.
\<close>

record routeTypeMapping = typeRef +
  filePath :: path

text \<open>
  \<open>findTypeForUrl\<close>: \<open>Inl\<close> is an exception of the scan, \<open>Inr None\<close> is \<open>null\<close>.  The test
  \<open>!filePath\<close> also holds for the empty string.
\<close>

definition findTypeForUrl ::
  "inflector \<Rightarrow> filesystem \<Rightarrow> string \<Rightarrow> path list \<Rightarrow> fsError + routeTypeMapping option" where
  "findTypeForUrl infl fs url directories =
     (let t = parseUrlToType infl url
      in case buildTypeMap fs directories of
           Inl err \<Rightarrow> Inl err
         | Inr tm \<Rightarrow>
             (case tm (typeName t) of
                None \<Rightarrow> Inr None
              | Some file \<Rightarrow>
                  if file = [] then Inr None
                  else Inr (Some \<lparr>typeName = typeName t, isArray = isArray t, filePath = file\<rparr>)))"

text \<open>Two sample trees, used to run the definitions.\<close>

definition localContracts :: "dirent list" where
  "localContracts =
     [RegularFile ''user.ts''
        (Some ''export interface User { id: number; } export  interface UserProfile { bio: string; }''),
      RegularFile ''README.md'' (Some ''export interface Readme {}''),
      Directory ''node_modules'' [RegularFile ''dep.ts'' (Some ''export interface Dep {}'')],
      Directory ''models'' [RegularFile ''order.ts'' (Some ''export interface Order {}'')]]"

definition externalContracts :: "dirent list" where
  "externalContracts =
     [RegularFile ''legacy.ts'' (Some ''export interface User { legacy: true; }''),
      RegularFile ''person.ts'' (Some ''export interface Person {}'')]"

definition sampleFs :: filesystem where
  "sampleFs p =
     (if p = ''/app/contracts'' then Listing localContracts
      else if p = ''/ext/types'' then Listing externalContracts
      else Absent)"

text \<open>The same local directory with one more file, which cannot be read.\<close>

definition lockedFs :: filesystem where
  "lockedFs p =
     (if p = ''/app/contracts'' then Listing (localContracts @ [RegularFile ''secret.ts'' None])
      else Absent)"

subsection \<open>The declarations in scan order\<close>

text \<open>
  What the claim about priority speaks of: every pair (interface name, file) that the
  three loops visit, in the order in which they visit it.  An exception of a scan or of a
  read arrives here exactly where it arrives in \<open>buildTypeMap\<close>.
\<close>

fun fileDeclarations :: "sourceFile list \<Rightarrow> fsError + (string \<times> path) list" where
  "fileDeclarations [] = Inr []"
| "fileDeclarations (file # files) =
     (case extractInterfaceNames file of
        Inl err \<Rightarrow> Inl err
      | Inr interfaces \<Rightarrow>
          (case fileDeclarations files of
             Inl err \<Rightarrow> Inl err
           | Inr rest \<Rightarrow> Inr (map (\<lambda>n. (n, fst file)) interfaces @ rest)))"

definition declarationsIn :: "filesystem \<Rightarrow> path \<Rightarrow> fsError + (string \<times> path) list" where
  "declarationsIn fs dir =
     (case findTypeScriptFiles fs dir of
        Inl err \<Rightarrow> Inl err
      | Inr files \<Rightarrow> fileDeclarations files)"

fun scanOrder :: "filesystem \<Rightarrow> path list \<Rightarrow> fsError + (string \<times> path) list" where
  "scanOrder fs [] = Inr []"
| "scanOrder fs (dir # dirs) =
     (case declarationsIn fs dir of
        Inl err \<Rightarrow> Inl err
      | Inr found \<Rightarrow>
          (case scanOrder fs dirs of
             Inl err \<Rightarrow> Inl err
           | Inr rest \<Rightarrow> Inr (found @ rest)))"

section \<open>Schema cache (core/cache.ts)\<close>

text \<open>
  The generated data of a response: one object, or an array of objects.  The cache stores
  whatever the handler hands it (the source casts to \<open>Record<string, unknown>\<close>).
\<close>

datatype 'p mockData = MockObject 'p | MockArray "'p list"

text \<open>\<open>ParsedSchema\<close>; its field \<open>filePath\<close> is \<open>schemaFilePath\<close> here.\<close>

record 'p parsedSchema =
  interfaceName :: string
  schemaFilePath :: path
  schema :: "'p mockData"
  lastUpdated :: nat

text \<open>The class \<open>SchemaCache\<close>: its private map (\<open>cache\<close> in the source) and its flag.\<close>

record 'p schemaCache =
  store :: "string \<rightharpoonup> 'p parsedSchema"
  enabled :: bool

definition newSchemaCache :: "bool \<Rightarrow> 'p schemaCache" where
  "newSchemaCache en = \<lparr>store = Map.empty, enabled = en\<rparr>"

text \<open>The global instance, \<open>new SchemaCache()\<close>: enabled.\<close>

definition globalSchemaCache :: "'p schemaCache" where
  "globalSchemaCache = newSchemaCache True"

definition generateKey :: "string \<Rightarrow> path \<Rightarrow> string" where
  "generateKey name file = file @ ''::'' @ name"

definition get :: "'p schemaCache \<Rightarrow> string \<Rightarrow> path \<Rightarrow> 'p parsedSchema option" where
  "get sc name file = (if \<not> enabled sc then None else store sc (generateKey name file))"

definition set' ::
  "'p schemaCache \<Rightarrow> string \<Rightarrow> path \<Rightarrow> 'p mockData \<Rightarrow> nat \<Rightarrow> 'p schemaCache" where
  "set' sc name file data now =
     (if \<not> enabled sc then sc
      else sc\<lparr>store := (store sc)(generateKey name file \<mapsto>
             \<lparr>interfaceName = name, schemaFilePath = file, schema = data, lastUpdated = now\<rparr>)\<rparr>)"

definition invalidateFile :: "'p schemaCache \<Rightarrow> path \<Rightarrow> 'p schemaCache" where
  "invalidateFile sc file =
     sc\<lparr>store := (\<lambda>key. case store sc key of
                          None \<Rightarrow> None
                        | Some v \<Rightarrow> if schemaFilePath v = file then None else Some v)\<rparr>"

definition clear :: "'p schemaCache \<Rightarrow> 'p schemaCache" where
  "clear sc = sc\<lparr>store := Map.empty\<rparr>"

text \<open>
  An invariant of the cache: every entry sits under the key of its own name and file, and
  its name is a run of word characters (so the key determines both).
\<close>

definition wellKeyed :: "'p schemaCache \<Rightarrow> bool" where
  "wellKeyed sc =
     (\<forall>k v. store sc k = Some v \<longrightarrow>
        k = generateKey (interfaceName v) (schemaFilePath v) \<and>
        (\<forall>c\<in>set (interfaceName v). isWord c))"

section \<open>Configuration and the status override (middlewares/statusOverride.ts)\<close>

record serverConfig =
  contractsDir :: path
  externalDirs :: "path list option"
  port :: "int option"
  targetUrl :: "string option"
  latency :: "(int \<times> int) option"
  hotReload :: bool
  cache :: bool
  verbose :: bool

text \<open>\<open>[config.contractsDir, ...(config.externalDirs || [])]\<close>.\<close>

definition allDirs :: "serverConfig \<Rightarrow> path list" where
  "allDirs config =
     contractsDir config # (case externalDirs config of None \<Rightarrow> [] | Some dirs \<Rightarrow> dirs)"

text \<open>Truthiness of a \<open>string | undefined\<close> and of a \<open>number | undefined\<close> (never \<open>NaN\<close> here).\<close>

definition truthyString :: "string option \<Rightarrow> bool" where
  "truthyString v = (case v of None \<Rightarrow> False | Some s \<Rightarrow> s \<noteq> [])"

definition truthyNumber :: "int option \<Rightarrow> bool" where
  "truthyNumber v = (case v of None \<Rightarrow> False | Some n \<Rightarrow> n \<noteq> 0)"

text \<open>\<open>forcedStatus || fallback\<close>.\<close>

definition orElse :: "int option \<Rightarrow> int \<Rightarrow> int" where
  "orElse v fallback = (if truthyNumber v then the v else fallback)"

definition isDigit :: "char \<Rightarrow> bool" where
  "isDigit c = (48 \<le> charCode c \<and> charCode c \<le> 57)"

definition digitsValue :: "string \<Rightarrow> nat" where
  "digitsValue ds = foldl (\<lambda>acc c. 10 * acc + (charCode c - 48)) 0 ds"

text \<open>
  \<open>parseInt(s, 10)\<close>: leading white space is skipped, one sign is read, then the longest
  run of digits; what follows is ignored.  \<open>None\<close> is \<open>NaN\<close>.  The value is the exact
  integer; the source's double is that integer up to \<open>2^53\<close> and its rounding beyond.
\<close>

definition parseInt :: "string \<Rightarrow> int option" where
  "parseInt s =
     (let t = dropWhile isSpace s;
          negative = (t \<noteq> [] \<and> hd t = CHR ''-'');
          u = (if t \<noteq> [] \<and> (hd t = CHR ''-'' \<or> hd t = CHR ''+'') then tl t else t);
          ds = takeWhile isDigit u
      in if ds = [] then None
         else Some (if negative then - int (digitsValue ds) else int (digitsValue ds)))"

text \<open>
  \<open>statusOverrideMiddleware\<close>: from the header \<open>x-mock-status\<close> to
  \<open>res.locals.forcedStatus\<close>, which starts out undefined.
\<close>

definition statusOverrideMiddleware :: "string option \<Rightarrow> int option" where
  "statusOverrideMiddleware mockStatus =
     (if truthyString mockStatus
      then (case parseInt (the mockStatus) of
              None \<Rightarrow> None
            | Some statusCode \<Rightarrow>
                if 100 \<le> statusCode \<and> statusCode < 600 then Some statusCode else None)
      else None)"

section \<open>The mock handler (core/router.ts)\<close>

text \<open>
  The generators of \<open>core/parser.ts\<close> rest on the package \<open>intermock\<close> and on
  \<open>Math.random\<close>; they enter as parameters.  Their first argument stands for the
  randomness one request draws; \<open>Inl message\<close> is a thrown \<open>Error(message)\<close>.
\<close>

record ('r, 'p) generators =
  generateMockFromInterface :: "'r \<Rightarrow> path \<Rightarrow> string \<Rightarrow> string + 'p"
  generateMockArray :: "'r \<Rightarrow> path \<Rightarrow> string \<Rightarrow> string + 'p list"

text \<open>What the \<open>catch\<close> clause of the handler can receive.\<close>

datatype exn = FsException fsError | GeneratorError string

text \<open>The JSON bodies the server writes, by shape.\<close>

datatype 'p body =
    TypeNotFound string
  | ForcedError int
  | MockGenerationFailed exn
  | Payload "'p mockData"
  | ProxyError string

record 'p response =
  status :: int
  body :: "'p body"

text \<open>
  \<open>dynamicRouteHandler\<close>: the response and the cache after the request.  \<open>now\<close> is
  \<open>Date.now()\<close>, \<open>forcedStatus\<close> is \<open>res.locals.forcedStatus\<close>.
\<close>

definition dynamicRouteHandler ::
  "serverConfig \<Rightarrow> inflector \<Rightarrow> filesystem \<Rightarrow> ('r, 'p) generators \<Rightarrow> nat \<Rightarrow> 'r \<Rightarrow>
   int option \<Rightarrow> string \<Rightarrow> 'p schemaCache \<Rightarrow> 'p response \<times> 'p schemaCache" where
  "dynamicRouteHandler config infl fs gen now rnd forcedStatus url sc =
     (case findTypeForUrl infl fs url (allDirs config) of
        Inl err \<Rightarrow>
          (\<lparr>status = orElse forcedStatus 500, body = MockGenerationFailed (FsException err)\<rparr>, sc)
      | Inr None \<Rightarrow>
          (\<lparr>status = orElse forcedStatus 404, body = TypeNotFound url\<rparr>, sc)
      | Inr (Some mapping) \<Rightarrow>
          if truthyNumber forcedStatus \<and> 400 \<le> the forcedStatus
          then (\<lparr>status = the forcedStatus, body = ForcedError (the forcedStatus)\<rparr>, sc)
          else
            (let cacheable = (cache config \<and> filePath mapping \<noteq> [] \<and> \<not> isArray mapping)
             in case (if cacheable then get sc (typeName mapping) (filePath mapping) else None) of
                  Some cached \<Rightarrow>
                    (\<lparr>status = orElse forcedStatus 200, body = Payload (schema cached)\<rparr>, sc)
                | None \<Rightarrow>
                    (case (if isArray mapping
                           then map_sum id MockArray
                                  (generateMockArray gen rnd (filePath mapping) (typeName mapping))
                           else map_sum id MockObject
                                  (generateMockFromInterface gen rnd (filePath mapping)
                                     (typeName mapping))) of
                       Inl message \<Rightarrow>
                         (\<lparr>status = orElse forcedStatus 500,
                           body = MockGenerationFailed (GeneratorError message)\<rparr>, sc)
                     | Inr mockData \<Rightarrow>
                         (\<lparr>status = orElse forcedStatus 200, body = Payload mockData\<rparr>,
                          if cacheable
                          then set' sc (typeName mapping) (filePath mapping) mockData now
                          else sc))))"

text \<open>
  The response of the handler when it generates a fresh object for a mapping (the lines
  after the cache lookup, for a mapping that is not an array).
\<close>

definition generated ::
  "('r, 'p) generators \<Rightarrow> 'r \<Rightarrow> int option \<Rightarrow> routeTypeMapping \<Rightarrow> 'p response" where
  "generated gen rnd forcedStatus mapping =
     (case generateMockFromInterface gen rnd (filePath mapping) (typeName mapping) of
        Inl message \<Rightarrow>
          \<lparr>status = orElse forcedStatus 500, body = MockGenerationFailed (GeneratorError message)\<rparr>
      | Inr d \<Rightarrow> \<lparr>status = orElse forcedStatus 200, body = Payload (MockObject d)\<rparr>)"

section \<open>The proxy gate (core/proxy.ts, server.ts)\<close>

datatype gateDecision = Next | Proxy

text \<open>
  The middleware returned by \<open>createProxyFallback\<close>, for one request: \<open>next()\<close>, or the
  call of the proxy; \<open>Inl\<close> is the exception of \<open>findTypeForUrl\<close>, which nothing catches
  here.
\<close>

definition createProxyFallback ::
  "serverConfig \<Rightarrow> inflector \<Rightarrow> filesystem \<Rightarrow> string \<Rightarrow> fsError + gateDecision" where
  "createProxyFallback config infl fs url =
     (if \<not> truthyString (targetUrl config) then Inr Next
      else (case findTypeForUrl infl fs url (allDirs config) of
              Inl err \<Rightarrow> Inl err
            | Inr (Some mapping) \<Rightarrow> Inr Next
            | Inr None \<Rightarrow> Inr Proxy))"

text \<open>
  The one attempt of the proxy: the upstream's answer, or an error with its message.
\<close>

datatype 'u attempt = Answer 'u | Failure string

text \<open>
  The option \<open>onError\<close>: after logging, the 502 response is written inside
  \<open>if (res instanceof Response)\<close>.  The value of that test is the first argument.  The
  result is the response written, if any.
\<close>

definition onError :: "bool \<Rightarrow> string \<Rightarrow> 'p response option" where
  "onError resInstanceofResponse message =
     (if resInstanceofResponse then Some \<lparr>status = 502, body = ProxyError message\<rparr> else None)"

text \<open>
  The test \<open>res instanceof Response\<close> for the response objects Express hands to the
  proxy.  The source imports \<open>Response\<close> from \<open>express\<close>, which declares it as an
  interface: a type with no value behind it.  At run time the identifier is therefore
  the global class \<open>Response\<close> of the Fetch API, of which an Express response (an
  \<open>http.ServerResponse\<close>) is no instance, or it is unbound and the test itself raises.
  Either way the guarded statement is not reached.
\<close>

definition expressResInstanceofResponse :: bool where
  "expressResInstanceofResponse = False"

text \<open>How a request ends.\<close>

datatype ('p, 'u) outcome =
    Responded "'p response"
  | Relayed 'u
  | NoResponse
  | Uncaught fsError

text \<open>
  The last two registrations of \<open>createServer\<close>, behind the status override: the gate
  when \<open>config.targetUrl\<close> is set, then the catch-all mock handler.
\<close>

definition serve ::
  "serverConfig \<Rightarrow> inflector \<Rightarrow> filesystem \<Rightarrow> ('r, 'p) generators \<Rightarrow> (string \<Rightarrow> 'u attempt) \<Rightarrow>
   bool \<Rightarrow> nat \<Rightarrow> 'r \<Rightarrow> string option \<Rightarrow> string \<Rightarrow> 'p schemaCache \<Rightarrow>
   ('p, 'u) outcome \<times> 'p schemaCache" where
  "serve config infl fs gen upstream resInstanceofResponse now rnd mockStatus url sc =
     (let forcedStatus = statusOverrideMiddleware mockStatus;
          mock = (let (res, sc') = dynamicRouteHandler config infl fs gen now rnd forcedStatus url sc
                  in (Responded res, sc'))
      in if truthyString (targetUrl config)
         then (case createProxyFallback config infl fs url of
                 Inl err \<Rightarrow> (Uncaught err, sc)
               | Inr Next \<Rightarrow> mock
               | Inr Proxy \<Rightarrow>
                   (case upstream url of
                      Answer u \<Rightarrow> (Relayed u, sc)
                    | Failure message \<Rightarrow>
                        (case onError resInstanceofResponse message of
                           Some res \<Rightarrow> (Responded res, sc)
                         | None \<Rightarrow> (NoResponse, sc))))
         else mock)"

section \<open>The file watcher (utils/fileWatcher.ts)\<close>

datatype watchEvent = Change path | Add path | Unlink path | WatcherError string | Ready

text \<open>
  The handlers registered by \<open>startFileWatcher\<close>.  They act on the global cache and,
  through the optional callback \<open>onReload\<close>, on whatever state the caller keeps (\<open>'a\<close>).
  The logger calls are left out.
\<close>

fun onWatchEvent ::
  "(path \<Rightarrow> 'a \<Rightarrow> 'a) option \<Rightarrow> watchEvent \<Rightarrow> 'p schemaCache \<times> 'a \<Rightarrow> 'p schemaCache \<times> 'a" where
  "onWatchEvent onReload (Change file) (sc, app) =
     (invalidateFile sc file, (case onReload of None \<Rightarrow> app | Some callback \<Rightarrow> callback file app))"
| "onWatchEvent onReload (Add file) (sc, app) =
     (sc, (case onReload of None \<Rightarrow> app | Some callback \<Rightarrow> callback file app))"
| "onWatchEvent onReload (Unlink file) (sc, app) = (invalidateFile sc file, app)"
| "onWatchEvent onReload (WatcherError message) (sc, app) = (sc, app)"
| "onWatchEvent onReload Ready (sc, app) = (sc, app)"

text \<open>
  The callback \<open>startServer\<close> passes, \<open>(filePath) => logger.info(...)\<close>, seen on a
  state that counts its calls.
\<close>

definition countReload :: "path \<Rightarrow> nat \<Rightarrow> nat" where
  "countReload file n = Suc n"

section \<open>Start-up (index.ts)\<close>

text \<open>
  The disk as the start-up code sees it: which paths \<open>fs.existsSync\<close> finds, and on
  which paths \<open>fs.mkdirSync(p, { recursive: true })\<close> throws.
\<close>

record disk =
  existsSync :: "path \<Rightarrow> bool"
  mkdirThrows :: "path \<Rightarrow> bool"

text \<open>\<open>a\<close> is a proper ancestor directory of the path \<open>p\<close>.\<close>

definition isAncestor :: "path \<Rightarrow> path \<Rightarrow> bool" where
  "isAncestor a p =
     (a \<noteq> [] \<and> length a < length p \<and> take (length a) p = a \<and>
      (last a = CHR ''/'' \<or> p ! length a = CHR ''/''))"

text \<open>
  \<open>fs.mkdirSync(p, { recursive: true })\<close>: \<open>None\<close> when it throws; otherwise \<open>p\<close> exists
  afterwards, and so does every ancestor of \<open>p\<close>.
\<close>

definition mkdirSync :: "disk \<Rightarrow> path \<Rightarrow> disk option" where
  "mkdirSync d p =
     (if mkdirThrows d p then None
      else Some (d\<lparr>existsSync := (\<lambda>q. existsSync d q \<or> q = p \<or> isAncestor q p)\<rparr>))"

text \<open>The options as commander hands them to the action.\<close>

record options =
  dir :: string
  externalDir :: "string list option"
  portOption :: string
  target :: "string option"
  latencyOption :: "string option"
  hotReloadOption :: bool
  cacheOption :: bool
  verboseOption :: bool

text \<open>\<open>options.latency.match(/^(\d+)-(\d+)$/)\<close> and the two \<open>parseInt\<close> calls.\<close>

definition parseLatency :: "string \<Rightarrow> (int \<times> int) option" where
  "parseLatency given =
     (let lo = takeWhile isDigit given; rest = dropWhile isDigit given
      in if lo \<noteq> [] \<and> rest \<noteq> [] \<and> hd rest = CHR ''-'' \<and> tl rest \<noteq> [] \<and>
            (\<forall>c\<in>set (tl rest). isDigit c)
         then Some (int (digitsValue lo), int (digitsValue (tl rest)))
         else None)"

text \<open>
  How the action ends: \<open>process.exit(code)\<close>, an exception nothing catches, or the call
  \<open>startServer(config)\<close> on the disk as it then is.
\<close>

datatype startup = Exit int | Crash | StartServer serverConfig disk

text \<open>
  The action of the main command up to the call of \<open>startServer\<close>; \<open>resolve\<close> is
  \<open>path.resolve\<close> for the current working directory.
\<close>

definition action :: "(string \<Rightarrow> path) \<Rightarrow> options \<Rightarrow> disk \<Rightarrow> startup" where
  "action resolve opts d =
     (let contracts = resolve (dir opts);
          externals = map_option (map resolve) (externalDir opts)
      in case (if \<not> existsSync d contracts then mkdirSync d contracts else Some d) of
           None \<Rightarrow> Crash
         | Some d' \<Rightarrow>
             if (case externals of None \<Rightarrow> False
                 | Some dirs \<Rightarrow> \<exists>e\<in>set dirs. \<not> existsSync d' e)
             then Exit 1
             else StartServer
                    \<lparr>contractsDir = contracts,
                     externalDirs = externals,
                     port = parseInt (portOption opts),
                     targetUrl = target opts,
                     latency = (case latencyOption opts of
                                  None \<Rightarrow> None
                                | Some given \<Rightarrow> if given = [] then None else parseLatency given),
                     hotReload = hotReloadOption opts,
                     cache = cacheOption opts,
                     verbose = verboseOption opts\<rparr> d')"

section \<open>Sample configurations\<close>

text \<open>
  A configuration without and with an upstream, generators whose objects name the
  interface and the randomness they were drawn with, and an upstream that refuses the
  connection.
\<close>

definition sampleConfig :: serverConfig where
  "sampleConfig =
     \<lparr>contractsDir = ''/app/contracts'', externalDirs = Some [''/ext/types''],
      port = Some 8080, targetUrl = None, latency = None, hotReload = True,
      cache = True, verbose = False\<rparr>"

definition proxyConfig :: serverConfig where
  "proxyConfig = sampleConfig\<lparr>targetUrl := Some ''http://localhost:3000''\<rparr>"

definition sampleGenerators :: "(nat, string \<times> nat) generators" where
  "sampleGenerators =
     \<lparr>generateMockFromInterface = (\<lambda>rnd file name. Inr (name, rnd)),
      generateMockArray = (\<lambda>rnd file name. Inr [(name, rnd), (name, rnd + 1), (name, rnd + 2)])\<rparr>"

definition deadUpstream :: "string \<Rightarrow> string attempt" where
  "deadUpstream url = Failure ''connect ECONNREFUSED 127.0.0.1:3000''"

definition noCacheConfig :: serverConfig where
  "noCacheConfig = sampleConfig\<lparr>cache := False\<rparr>"

definition liveUpstream :: "string \<Rightarrow> string attempt" where
  "liveUpstream url = Answer (''upstream answer for '' @ url)"

text \<open>
  A disk on which only \<open>/w\<close> exists, and two command lines: the external directory is an
  ancestor of the contracts directory in the first, a sibling in the second.
\<close>

definition bareDisk :: disk where
  "bareDisk = \<lparr>existsSync = (\<lambda>p. p = ''/w''), mkdirThrows = (\<lambda>p. False)\<rparr>"

definition nestedOptions :: options where
  "nestedOptions =
     \<lparr>dir = ''/w/types/contracts'', externalDir = Some [''/w/types''], portOption = ''8080'',
      target = None, latencyOption = None, hotReloadOption = True, cacheOption = True,
      verboseOption = False\<rparr>"

definition siblingOptions :: options where
  "siblingOptions = nestedOptions\<lparr>externalDir := Some [''/w/shared'']\<rparr>"

section \<open>Priority among directories\<close>

text \<open>
  The loops of \<open>buildTypeMap\<close> compute the map that sends a name to the file of its
  first declaration in scan order: each loop lays its declarations under the map built
  so far.
\<close>

lemma addInterfaces_map_add:
  "addInterfaces file names tm = map_of (map (\<lambda>n. (n, file)) names) ++ tm"
proof (induction names arbitrary: tm)
  case Nil
  then show ?case by simp
next
  case (Cons n names)
  show ?case
    by (rule ext) (auto simp: Cons.IH map_add_def split: option.splits)
qed

lemma addFiles_map_add:
  "addFiles files tm =
     (case fileDeclarations files of Inl err \<Rightarrow> Inl err | Inr ds \<Rightarrow> Inr (map_of ds ++ tm))"
proof (induction files arbitrary: tm)
  case Nil
  then show ?case by simp
next
  case (Cons f files)
  show ?case
    by (auto simp: Cons.IH addInterfaces_map_add split: sum.splits)
qed

lemma addDirectories_map_add:
  "addDirectories fs dirs tm =
     (case scanOrder fs dirs of Inl err \<Rightarrow> Inl err | Inr occ \<Rightarrow> Inr (map_of occ ++ tm))"
proof (induction dirs arbitrary: tm)
  case Nil
  then show ?case by simp
next
  case (Cons dir dirs)
  show ?case
    by (auto simp: Cons.IH addFiles_map_add declarationsIn_def split: sum.splits)
qed

lemma buildTypeMap_scanOrder:
  "buildTypeMap fs dirs =
     (case scanOrder fs dirs of Inl err \<Rightarrow> Inl err | Inr occ \<Rightarrow> Inr (map_of occ))"
  by (simp add: buildTypeMap_def addDirectories_map_add split: sum.splits)

lemma map_of_first_index:
  "map_of xs k = Some v \<longleftrightarrow>
     (\<exists>i<length xs. xs ! i = (k, v) \<and> (\<forall>j<i. fst (xs ! j) \<noteq> k))"
proof (induction xs)
  case Nil
  then show ?case by simp
next
  case (Cons x xs)
  show ?case
  proof (cases "fst x = k")
    case True
    have "(\<exists>i<length (x # xs). (x # xs) ! i = (k, v) \<and> (\<forall>j<i. fst ((x # xs) ! j) \<noteq> k)) \<longleftrightarrow> x = (k, v)"
    proof
      assume "\<exists>i<length (x # xs). (x # xs) ! i = (k, v) \<and> (\<forall>j<i. fst ((x # xs) ! j) \<noteq> k)"
      then obtain i where i: "(x # xs) ! i = (k, v)" "\<forall>j<i. fst ((x # xs) ! j) \<noteq> k" by blast
      have "i = 0"
      proof (rule ccontr)
        assume "i \<noteq> 0"
        then have "0 < i" by simp
        with i(2) have "fst ((x # xs) ! 0) \<noteq> k" by blast
        with True show False by simp
      qed
      with i(1) show "x = (k, v)" by simp
    next
      assume "x = (k, v)"
      then show "\<exists>i<length (x # xs). (x # xs) ! i = (k, v) \<and> (\<forall>j<i. fst ((x # xs) ! j) \<noteq> k)"
        by (intro exI [of _ 0]) simp
    qed
    with True show ?thesis by (cases x) auto
  next
    case False
    have "(\<exists>i<length (x # xs). (x # xs) ! i = (k, v) \<and> (\<forall>j<i. fst ((x # xs) ! j) \<noteq> k)) \<longleftrightarrow>
          (\<exists>i<length xs. xs ! i = (k, v) \<and> (\<forall>j<i. fst (xs ! j) \<noteq> k))"
    proof
      assume "\<exists>i<length (x # xs). (x # xs) ! i = (k, v) \<and> (\<forall>j<i. fst ((x # xs) ! j) \<noteq> k)"
      then obtain i where i: "i < length (x # xs)" "(x # xs) ! i = (k, v)"
        "\<forall>j<i. fst ((x # xs) ! j) \<noteq> k" by blast
      from i(2) False obtain i' where i': "i = Suc i'" by (cases i) auto
      have "\<forall>j<i'. fst (xs ! j) \<noteq> k"
      proof (intro allI impI)
        fix j assume "j < i'"
        then have "Suc j < i" using i' by simp
        with i(3) have "fst ((x # xs) ! Suc j) \<noteq> k" by blast
        then show "fst (xs ! j) \<noteq> k" by simp
      qed
      with i i' show "\<exists>i<length xs. xs ! i = (k, v) \<and> (\<forall>j<i. fst (xs ! j) \<noteq> k)"
        by (intro exI [of _ i']) simp
    next
      assume "\<exists>i<length xs. xs ! i = (k, v) \<and> (\<forall>j<i. fst (xs ! j) \<noteq> k)"
      then obtain i where i: "i < length xs" "xs ! i = (k, v)" "\<forall>j<i. fst (xs ! j) \<noteq> k" by blast
      have "\<forall>j<Suc i. fst ((x # xs) ! j) \<noteq> k"
      proof (intro allI impI)
        fix j assume "j < Suc i"
        then show "fst ((x # xs) ! j) \<noteq> k"
          using False i(3) by (cases j) auto
      qed
      with i show "\<exists>i<length (x # xs). (x # xs) ! i = (k, v) \<and> (\<forall>j<i. fst ((x # xs) ! j) \<noteq> k)"
        by (intro exI [of _ "Suc i"]) simp
    qed
    with False Cons.IH show ?thesis by (cases x) auto
  qed
qed

text \<open>
  Claim C1.  Whenever the directories can be scanned, the type map holds for every name
  exactly the file of its first declaration in scan order: a later declaration of the
  same name changes nothing, and no entry combines two files.  In particular, when the
  directories \<open>A\<close> and \<open>B\<close> both declare \<open>T\<close>, the map built from \<open>[A, B]\<close> sends \<open>T\<close>
  to the first file of \<open>A\<close> that declares it, and the map built from \<open>[B, A]\<close> to the
  first such file of \<open>B\<close>.
\<close>

theorem buildTypeMap_first_wins:
  "(scanOrder fs dirs = Inr occ \<longrightarrow>
      (\<exists>tm. buildTypeMap fs dirs = Inr tm \<and>
         (\<forall>n f. tm n = Some f \<longleftrightarrow>
            (\<exists>i<length occ. occ ! i = (n, f) \<and> (\<forall>j<i. fst (occ ! j) \<noteq> n))))) \<and>
   (declarationsIn fs A = Inr da \<and> declarationsIn fs B = Inr db \<and>
    T \<in> fst ` set da \<and> T \<in> fst ` set db \<longrightarrow>
      (\<exists>tm f. buildTypeMap fs [A, B] = Inr tm \<and> tm T = Some f \<and>
         (\<exists>i<length da. da ! i = (T, f) \<and> (\<forall>j<i. fst (da ! j) \<noteq> T))) \<and>
      (\<exists>tm f. buildTypeMap fs [B, A] = Inr tm \<and> tm T = Some f \<and>
         (\<exists>i<length db. db ! i = (T, f) \<and> (\<forall>j<i. fst (db ! j) \<noteq> T))))"
proof (intro conjI impI)
  assume "scanOrder fs dirs = Inr occ"
  then have "buildTypeMap fs dirs = Inr (map_of occ)"
    by (simp add: buildTypeMap_scanOrder)
  then show "\<exists>tm. buildTypeMap fs dirs = Inr tm \<and>
         (\<forall>n f. tm n = Some f \<longleftrightarrow>
            (\<exists>i<length occ. occ ! i = (n, f) \<and> (\<forall>j<i. fst (occ ! j) \<noteq> n)))"
    using map_of_first_index [of occ] by blast
next
  assume h: "declarationsIn fs A = Inr da \<and> declarationsIn fs B = Inr db \<and>
    T \<in> fst ` set da \<and> T \<in> fst ` set db"
  have first: "\<exists>f. (map_of (xs @ ys)) T = Some f \<and>
      (\<exists>i<length xs. xs ! i = (T, f) \<and> (\<forall>j<i. fst (xs ! j) \<noteq> T))"
    if "T \<in> fst ` set xs" for xs ys :: "(string \<times> path) list"
  proof -
    from that obtain f where f: "map_of xs T = Some f"
      by (metis map_of_eq_None_iff not_Some_eq)
    then have "map_of (xs @ ys) T = Some f"
      by (simp add: map_add_def)
    with f show ?thesis using map_of_first_index [of xs T f] by blast
  qed
  from h have ab: "buildTypeMap fs [A, B] = Inr (map_of (da @ db))"
    by (simp add: buildTypeMap_scanOrder)
  from h have ba: "buildTypeMap fs [B, A] = Inr (map_of (db @ da))"
    by (simp add: buildTypeMap_scanOrder)
  from h first [of da db] ab
  show "\<exists>tm f. buildTypeMap fs [A, B] = Inr tm \<and> tm T = Some f \<and>
         (\<exists>i<length da. da ! i = (T, f) \<and> (\<forall>j<i. fst (da ! j) \<noteq> T))"
    by blast
  from h first [of db da] ba
  show "\<exists>tm f. buildTypeMap fs [B, A] = Inr tm \<and> tm T = Some f \<and>
         (\<exists>i<length db. db ! i = (T, f) \<and> (\<forall>j<i. fst (db ! j) \<noteq> T))"
    by blast
qed

lemma sample_local: "declarationsIn sampleFs ''/app/contracts'' =
     Inr [(''User'', ''/app/contracts/user.ts''), (''UserProfile'', ''/app/contracts/user.ts''),
          (''Order'', ''/app/contracts/models/order.ts'')]"
  by code_simp

lemma sample_external: "declarationsIn sampleFs ''/ext/types'' =
     Inr [(''User'', ''/ext/types/legacy.ts''), (''Person'', ''/ext/types/person.ts'')]"
  by code_simp

theorem buildTypeMap_first_wins_witness:
  "declarationsIn sampleFs ''/app/contracts'' =
     Inr [(''User'', ''/app/contracts/user.ts''), (''UserProfile'', ''/app/contracts/user.ts''),
          (''Order'', ''/app/contracts/models/order.ts'')] \<and>
   declarationsIn sampleFs ''/ext/types'' =
     Inr [(''User'', ''/ext/types/legacy.ts''), (''Person'', ''/ext/types/person.ts'')] \<and>
   (\<exists>tm. buildTypeMap sampleFs [''/app/contracts'', ''/ext/types''] = Inr tm \<and>
      tm ''User'' = Some ''/app/contracts/user.ts'') \<and>
   (\<exists>tm. buildTypeMap sampleFs [''/ext/types'', ''/app/contracts''] = Inr tm \<and>
      tm ''User'' = Some ''/ext/types/legacy.ts'')"
proof -
  let ?da = "[(''User'', ''/app/contracts/user.ts''), (''UserProfile'', ''/app/contracts/user.ts''),
          (''Order'', ''/app/contracts/models/order.ts'')]"
  let ?db = "[(''User'', ''/ext/types/legacy.ts''), (''Person'', ''/ext/types/person.ts'')]"
  have in_a: "''User'' \<in> fst ` set ?da" by simp
  have in_b: "''User'' \<in> fst ` set ?db" by simp
  note w = buildTypeMap_first_wins [of sampleFs "[]" "[]" "''/app/contracts''" ?da "''/ext/types''" ?db "''User''",
      THEN conjunct2, rule_format, OF conjI [OF sample_local conjI [OF sample_external conjI [OF in_a in_b]]]]
  from w [THEN conjunct1] obtain tm f i where ab:
    "buildTypeMap sampleFs [''/app/contracts'', ''/ext/types''] = Inr tm" "tm ''User'' = Some f"
    "i < length ?da" "?da ! i = (''User'', f)" by blast
  from ab(3,4) have "f = ''/app/contracts/user.ts''"
    by (auto simp: less_Suc_eq nth_Cons split: nat.splits)
  with ab have 1: "\<exists>tm. buildTypeMap sampleFs [''/app/contracts'', ''/ext/types''] = Inr tm \<and>
      tm ''User'' = Some ''/app/contracts/user.ts''" by blast
  from w [THEN conjunct2] obtain tm f i where ba:
    "buildTypeMap sampleFs [''/ext/types'', ''/app/contracts''] = Inr tm" "tm ''User'' = Some f"
    "i < length ?db" "?db ! i = (''User'', f)" by blast
  from ba(3,4) have "f = ''/ext/types/legacy.ts''"
    by (auto simp: less_Suc_eq nth_Cons split: nat.splits)
  with ba have 2: "\<exists>tm. buildTypeMap sampleFs [''/ext/types'', ''/app/contracts''] = Inr tm \<and>
      tm ''User'' = Some ''/ext/types/legacy.ts''" by blast
  from sample_local sample_external 1 2 show ?thesis by blast
qed

section \<open>What the type map holds\<close>

text \<open>
  Every key of the type map is a non-empty run of word characters, and every value is a
  non-empty path; so the test \<open>!filePath\<close> of \<open>findTypeForUrl\<close> fails exactly for the
  names the map does not hold.
\<close>

lemma matchAt_word:
  "matchAt s = Some (w, r) \<Longrightarrow> w \<noteq> [] \<and> (\<forall>c\<in>set w. isWord c)"
  by (auto simp: matchAt_def Let_def split: option.splits if_splits dest: set_takeWhileD)

lemma execAll_unfold_None:
  "matchAt s = None \<Longrightarrow> execAll s = (case s of [] \<Rightarrow> [] | c # cs \<Rightarrow> execAll cs)"
  by (subst execAll.simps) simp

lemma execAll_unfold_Some:
  "matchAt s = Some m \<Longrightarrow> execAll s = fst m # execAll (snd m)"
  by (subst execAll.simps) simp

lemma execAll_words:
  "w \<in> set (execAll s) \<Longrightarrow> w \<noteq> [] \<and> (\<forall>c\<in>set w. isWord c)"
proof (induction s rule: execAll.induct)
  case (1 s)
  show ?case
  proof (cases "matchAt s")
    case None
    show ?thesis
    proof (cases s)
      case Nil
      with None "1.prems" show ?thesis by (simp add: execAll_unfold_None)
    next
      case (Cons c cs)
      with None "1.prems" have "w \<in> set (execAll cs)" by (simp add: execAll_unfold_None)
      with "1.IH"(1) [OF None Cons] show ?thesis .
    qed
  next
    case (Some m)
    with "1.prems" have "w = fst m \<or> w \<in> set (execAll (snd m))"
      by (simp add: execAll_unfold_Some)
    then show ?thesis
    proof
      assume "w = fst m"
      with Some matchAt_word [of s "fst m" "snd m"] show ?thesis by simp
    next
      assume "w \<in> set (execAll (snd m))"
      with Some "1.IH"(2) show ?thesis by simp
    qed
  qed
qed

lemma extractInterfaceNames_words:
  "extractInterfaceNames file = Inr names \<Longrightarrow> n \<in> set names \<Longrightarrow>
   n \<noteq> [] \<and> (\<forall>c\<in>set n. isWord c)"
  using execAll_words by (auto simp: extractInterfaceNames_def split: option.splits)

lemma endsWith_ts_nonempty: "endsWith name ''.ts'' \<Longrightarrow> name \<noteq> []"
  by (auto simp: endsWith_def)

lemma pathJoin_nonempty: "name \<noteq> [] \<Longrightarrow> pathJoin d name \<noteq> []"
  by (simp add: pathJoin_def)

lemma scan_paths_nonempty:
  "scanEntry d e = Inr files \<Longrightarrow> \<forall>f\<in>set files. fst f \<noteq> []"
  "scanEntries d es = Inr files \<Longrightarrow> \<forall>f\<in>set files. fst f \<noteq> []"
proof (induction d e and d es arbitrary: files and files rule: scanEntry_scanEntries.induct)
  case (1 currentDir name entries)
  then show ?case by (auto split: if_splits)
next
  case (2 currentDir name)
  then show ?case by (auto split: if_splits)
next
  case (3 currentDir name content)
  then show ?case by (auto split: if_splits dest: endsWith_ts_nonempty simp: pathJoin_nonempty)
next
  case (4 currentDir name)
  then show ?case by simp
next
  case (5 currentDir)
  then show ?case by simp
next
  case (6 currentDir e es)
  from "6.prems" obtain found rest where
    fr: "scanEntry currentDir e = Inr found" "scanEntries currentDir es = Inr rest"
      "files = found @ rest"
    by (auto split: sum.splits)
  with "6.IH"(1) [of found] "6.IH"(2) [of found rest] show ?case by auto
qed

lemma findTypeScriptFiles_paths_nonempty:
  "findTypeScriptFiles fs d = Inr files \<Longrightarrow> \<forall>f\<in>set files. fst f \<noteq> []"
  using scan_paths_nonempty(2) by (auto simp: findTypeScriptFiles_def split: root.splits)

lemma fileDeclarations_sound:
  "fileDeclarations files = Inr ds \<Longrightarrow> (n, f) \<in> set ds \<Longrightarrow>
   f \<in> fst ` set files \<and> n \<noteq> [] \<and> (\<forall>c\<in>set n. isWord c)"
proof (induction files arbitrary: ds)
  case Nil
  then show ?case by simp
next
  case (Cons x files)
  from Cons.prems(1) obtain names rest where
    nr: "extractInterfaceNames x = Inr names" "fileDeclarations files = Inr rest"
      "ds = map (\<lambda>n. (n, fst x)) names @ rest"
    by (auto split: sum.splits)
  from Cons.prems(2) nr(3) have "(n \<in> set names \<and> f = fst x) \<or> (n, f) \<in> set rest" by auto
  then show ?case
  proof
    assume "n \<in> set names \<and> f = fst x"
    with extractInterfaceNames_words [OF nr(1), of n] show ?thesis by simp
  next
    assume "(n, f) \<in> set rest"
    with Cons.IH [OF nr(2)] show ?thesis by simp
  qed
qed

lemma declarationsIn_sound:
  "declarationsIn fs d = Inr ds \<Longrightarrow> (n, f) \<in> set ds \<Longrightarrow>
   f \<noteq> [] \<and> n \<noteq> [] \<and> (\<forall>c\<in>set n. isWord c)"
proof -
  assume a: "declarationsIn fs d = Inr ds" "(n, f) \<in> set ds"
  from a(1) obtain files where
    files: "findTypeScriptFiles fs d = Inr files" "fileDeclarations files = Inr ds"
    by (auto simp: declarationsIn_def split: sum.splits)
  from fileDeclarations_sound [OF files(2) a(2)] findTypeScriptFiles_paths_nonempty [OF files(1)]
  show ?thesis by auto
qed

lemma scanOrder_sound:
  "scanOrder fs dirs = Inr occ \<Longrightarrow> (n, f) \<in> set occ \<Longrightarrow>
   f \<noteq> [] \<and> n \<noteq> [] \<and> (\<forall>c\<in>set n. isWord c)"
proof (induction dirs arbitrary: occ)
  case Nil
  then show ?case by simp
next
  case (Cons d dirs)
  from Cons.prems(1) obtain found rest where
    fr: "declarationsIn fs d = Inr found" "scanOrder fs dirs = Inr rest" "occ = found @ rest"
    by (auto split: sum.splits)
  from Cons.prems(2) fr(3) have "(n, f) \<in> set found \<or> (n, f) \<in> set rest" by auto
  then show ?case
    using declarationsIn_sound [OF fr(1)] Cons.IH [OF fr(2)] by blast
qed

lemma buildTypeMap_entries:
  assumes "buildTypeMap fs dirs = Inr tm" "tm n = Some f"
  shows "f \<noteq> [] \<and> n \<noteq> [] \<and> (\<forall>c\<in>set n. isWord c)"
proof -
  from assms(1) obtain occ where occ: "scanOrder fs dirs = Inr occ" "tm = map_of occ"
    by (auto simp: buildTypeMap_scanOrder split: sum.splits)
  with assms(2) have "(n, f) \<in> set occ" by (auto dest: map_of_SomeD)
  with scanOrder_sound [OF occ(1)] show ?thesis by blast
qed

lemma findTypeForUrl_cases:
  "findTypeForUrl infl fs url dirs =
     (case buildTypeMap fs dirs of
        Inl err \<Rightarrow> Inl err
      | Inr tm \<Rightarrow>
          (case tm (typeName (parseUrlToType infl url)) of
             None \<Rightarrow> Inr None
           | Some file \<Rightarrow>
               Inr (Some \<lparr>typeName = typeName (parseUrlToType infl url),
                          isArray = isArray (parseUrlToType infl url), filePath = file\<rparr>)))"
  using buildTypeMap_entries [of fs dirs]
  by (auto simp: findTypeForUrl_def Let_def split: sum.splits option.splits)

lemma findTypeForUrl_mapping:
  assumes "findTypeForUrl infl fs url dirs = Inr (Some m)"
  shows "filePath m \<noteq> [] \<and> typeName m \<noteq> [] \<and> (\<forall>c\<in>set (typeName m). isWord c) \<and>
         typeName m = typeName (parseUrlToType infl url) \<and>
         isArray m = isArray (parseUrlToType infl url) \<and>
         (\<exists>tm. buildTypeMap fs dirs = Inr tm \<and> tm (typeName m) = Some (filePath m))"
proof -
  from assms obtain tm fl where tm: "buildTypeMap fs dirs = Inr tm"
    "tm (typeName (parseUrlToType infl url)) = Some fl"
    "m = \<lparr>typeName = typeName (parseUrlToType infl url),
          isArray = isArray (parseUrlToType infl url), filePath = fl\<rparr>"
    by (auto simp: findTypeForUrl_cases split: sum.splits option.splits)
  with buildTypeMap_entries [OF tm(1,2)] show ?thesis by simp
qed

lemma sample_scanOrder:
  "scanOrder sampleFs [''/app/contracts'', ''/ext/types''] =
     Inr [(''User'', ''/app/contracts/user.ts''), (''UserProfile'', ''/app/contracts/user.ts''),
          (''Order'', ''/app/contracts/models/order.ts''),
          (''User'', ''/ext/types/legacy.ts''), (''Person'', ''/ext/types/person.ts'')]"
  by code_simp

lemma sample_buildTypeMap:
  "buildTypeMap sampleFs [''/app/contracts'', ''/ext/types''] =
     Inr (map_of [(''User'', ''/app/contracts/user.ts''), (''UserProfile'', ''/app/contracts/user.ts''),
          (''Order'', ''/app/contracts/models/order.ts''),
          (''User'', ''/ext/types/legacy.ts''), (''Person'', ''/ext/types/person.ts'')])"
  by (simp only: buildTypeMap_scanOrder sample_scanOrder sum.case)

section \<open>URL resolution\<close>

lemma splitOn_nonempty: "splitOn sep s \<noteq> []"
  by (induction s) (auto split: list.splits)

lemma splitOn_no_separator: "sep \<notin> set s \<Longrightarrow> splitOn sep s = [s]"
  by (induction s) auto

lemma splitOn_append:
  "splitOn sep (xs @ sep # ys) = splitOn sep xs @ splitOn sep ys"
proof (induction xs)
  case Nil
  then show ?case by simp
next
  case (Cons x xs)
  then show ?case
    using splitOn_nonempty [of sep xs] by (auto split: list.splits)
qed

lemma splitOn_separators: "filter (\<lambda>s. s \<noteq> []) (splitOn sep (replicate k sep)) = []"
  by (induction k) auto

lemma splitOn_trailing:
  "filter (\<lambda>s. s \<noteq> []) (splitOn sep (seg @ replicate k sep)) =
   filter (\<lambda>s. s \<noteq> []) (splitOn sep seg)"
proof (cases k)
  case 0
  then show ?thesis by simp
next
  case (Suc m)
  have "seg @ replicate (Suc m) sep = seg @ sep # replicate m sep" by simp
  then show ?thesis
    unfolding Suc by (simp only: splitOn_append filter_append splitOn_separators) simp
qed

lemma extractLastSegment_last:
  assumes "seg \<noteq> []" "CHR ''/'' \<notin> set seg"
  shows "extractLastSegment (pre @ ''/'' @ seg @ replicate k (CHR ''/'')) = seg"
proof -
  have "filter (\<lambda>s. s \<noteq> []) (splitOn (CHR ''/'') (pre @ CHR ''/'' # (seg @ replicate k (CHR ''/'')))) =
        filter (\<lambda>s. s \<noteq> []) (splitOn (CHR ''/'') pre) @ [seg]"
    using assms by (simp only: splitOn_append filter_append splitOn_trailing) (simp add: splitOn_no_separator)
  then show ?thesis
    by (simp add: extractLastSegment_def)
qed

lemma replaceSeparators_plain:
  "\<forall>c\<in>set w. \<not> isSeparator c \<Longrightarrow>
   replaceSeparators False (w @ rest) = w @ replaceSeparators False rest"
  by (induction w) auto

lemma replaceSeparators_word:
  assumes "w \<noteq> []" "\<forall>c\<in>set w. \<not> isSeparator c" "\<not> isLineTerminator (hd w)"
  shows "replaceSeparators True (w @ rest) = upperFirst w @ replaceSeparators False rest"
proof (cases w)
  case Nil
  with assms show ?thesis by simp
next
  case (Cons c cs)
  with assms show ?thesis
    using replaceSeparators_plain [of cs rest] by simp
qed

lemma replaceSeparators_words:
  assumes "\<forall>w\<in>set ws. w \<noteq> [] \<and> (\<forall>c\<in>set w. \<not> isSeparator c) \<and> \<not> isLineTerminator (hd w)"
    and "isSeparator s"
  shows "replaceSeparators b (concat (map ((#) s) ws)) = concat (map upperFirst ws)"
  using assms
proof (induction ws arbitrary: b)
  case Nil
  then show ?case by simp
next
  case (Cons w ws)
  then have w: "w \<noteq> []" "\<forall>c\<in>set w. \<not> isSeparator c" "\<not> isLineTerminator (hd w)" by auto
  from Cons have IH: "replaceSeparators False (concat (map ((#) s) ws)) = concat (map upperFirst ws)"
    by auto
  show ?case
    using Cons.prems(2) replaceSeparators_word [OF w, of "concat (map ((#) s) ws)"] IH by simp
qed

lemma upperFirst_append: "w \<noteq> [] \<Longrightarrow> upperFirst (w @ rest) = upperFirst w @ rest"
  by (cases w) auto

lemma toPascalCase_words:
  assumes "\<forall>w\<in>set (w0 # ws). w \<noteq> [] \<and> (\<forall>c\<in>set w. \<not> isSeparator c) \<and> \<not> isLineTerminator (hd w)"
    and "isSeparator s"
  shows "toPascalCase (w0 @ concat (map ((#) s) ws)) = concat (map upperFirst (w0 # ws))"
proof -
  from assms have w0: "w0 \<noteq> []" "\<forall>c\<in>set w0. \<not> isSeparator c" by auto
  from assms have rest: "\<forall>w\<in>set ws. w \<noteq> [] \<and> (\<forall>c\<in>set w. \<not> isSeparator c) \<and> \<not> isLineTerminator (hd w)"
    by auto
  have "replaceSeparators False (w0 @ concat (map ((#) s) ws)) = w0 @ concat (map upperFirst ws)"
    using replaceSeparators_plain [OF w0(2)] replaceSeparators_words [OF rest assms(2)] by simp
  then show ?thesis
    using w0(1) by (simp add: toPascalCase_def upperFirst_append)
qed

lemmas resolve_defs =
  parseUrlToType_def urlSegmentToTypeName_def extractLastSegment_def toPascalCase_def
  isSeparator_def isLineTerminator_def toUpperChar_def charCode_def

lemma upperFirst_word:
  "w \<noteq> [] \<Longrightarrow> \<not> isLineTerminator (hd w) \<Longrightarrow> upperFirst w = toUpperChar (hd w) # tl w"
  by (cases w) auto

text \<open>
  Claim C2, as amended.  The resolver takes the last non-empty segment between slashes,
  replaces it by its singular only when the inflector calls it plural, and turns the
  result into Pascal case: the separators \<open>-\<close> and \<open>_\<close> go, and the first letter of every
  word between them is upper-cased.  With an inflector that treats \<open>users\<close>, \<open>people\<close>
  and \<open>user-profiles\<close> as plurals of \<open>user\<close>, \<open>person\<close> and \<open>user-profile\<close>, and \<open>user\<close>
  as not plural, the four URLs of the claim resolve as the claim says.  A segment is
  marked as an array exactly when the inflector calls it plural: one it does not call
  plural is never an array, and one it calls plural is an array even when it is its own
  singular.
\<close>

theorem parseUrlToType_resolution:
  "(seg \<noteq> [] \<and> CHR ''/'' \<notin> set seg \<longrightarrow>
      extractLastSegment (pre @ ''/'' @ seg @ replicate k (CHR ''/'')) = seg) \<and>
   parseUrlToType infl url =
     \<lparr>typeName = toPascalCase (if isPlural infl (extractLastSegment url)
                               then singular infl (extractLastSegment url)
                               else extractLastSegment url),
      isArray = isPlural infl (extractLastSegment url)\<rparr> \<and>
   ((\<forall>w\<in>set (w0 # ws). w \<noteq> [] \<and> (\<forall>c\<in>set w. \<not> isSeparator c) \<and>
        \<not> isLineTerminator (hd w) \<and> charCode (hd w) < 128) \<and>
    isSeparator s \<longrightarrow>
      toPascalCase (w0 @ concat (map ((#) s) ws)) =
        concat (map (\<lambda>w. toUpperChar (hd w) # tl w) (w0 # ws))) \<and>
   (isPlural infl ''users'' \<and> singular infl ''users'' = ''user'' \<longrightarrow>
      parseUrlToType infl ''/api/v1/users'' = \<lparr>typeName = ''User'', isArray = True\<rparr>) \<and>
   (\<not> isPlural infl ''user'' \<longrightarrow>
      parseUrlToType infl ''/api/user'' = \<lparr>typeName = ''User'', isArray = False\<rparr>) \<and>
   (isPlural infl ''people'' \<and> singular infl ''people'' = ''person'' \<longrightarrow>
      parseUrlToType infl ''/api/people'' = \<lparr>typeName = ''Person'', isArray = True\<rparr>) \<and>
   (isPlural infl ''user-profiles'' \<and> singular infl ''user-profiles'' = ''user-profile'' \<longrightarrow>
      parseUrlToType infl ''/api/user-profiles'' = \<lparr>typeName = ''UserProfile'', isArray = True\<rparr>) \<and>
   isArray (parseUrlToType infl url) = isPlural infl (extractLastSegment url) \<and>
   (\<not> isPlural infl (extractLastSegment url) \<longrightarrow>
      parseUrlToType infl url =
        \<lparr>typeName = toPascalCase (extractLastSegment url), isArray = False\<rparr>) \<and>
   (isPlural infl (extractLastSegment url) \<and>
    singular infl (extractLastSegment url) = extractLastSegment url \<longrightarrow>
      parseUrlToType infl url =
        \<lparr>typeName = toPascalCase (extractLastSegment url), isArray = True\<rparr>)"
proof (intro conjI impI)
  show "extractLastSegment (pre @ ''/'' @ seg @ replicate k (CHR ''/'')) = seg"
    if "seg \<noteq> [] \<and> CHR ''/'' \<notin> set seg"
    using that extractLastSegment_last by blast
  show "toPascalCase (w0 @ concat (map ((#) s) ws)) =
        concat (map (\<lambda>w. toUpperChar (hd w) # tl w) (w0 # ws))"
    if h: "(\<forall>w\<in>set (w0 # ws). w \<noteq> [] \<and> (\<forall>c\<in>set w. \<not> isSeparator c) \<and>
        \<not> isLineTerminator (hd w) \<and> charCode (hd w) < 128) \<and> isSeparator s"
  proof -
    from h have "\<forall>w\<in>set (w0 # ws). w \<noteq> [] \<and> (\<forall>c\<in>set w. \<not> isSeparator c) \<and>
        \<not> isLineTerminator (hd w)" by blast
    with h have "toPascalCase (w0 @ concat (map ((#) s) ws)) = concat (map upperFirst (w0 # ws))"
      using toPascalCase_words by blast
    moreover from h have "map upperFirst (w0 # ws) = map (\<lambda>w. toUpperChar (hd w) # tl w) (w0 # ws)"
      by (intro map_cong refl upperFirst_word) blast+
    ultimately show ?thesis by (simp only:)
  qed
  have users: "extractLastSegment ''/api/v1/users'' = ''users''"
    and user: "extractLastSegment ''/api/user'' = ''user''"
    and people: "extractLastSegment ''/api/people'' = ''people''"
    and profiles: "extractLastSegment ''/api/user-profiles'' = ''user-profiles''"
    by (simp_all add: extractLastSegment_def)
  show "parseUrlToType infl ''/api/v1/users'' = \<lparr>typeName = ''User'', isArray = True\<rparr>"
    if "isPlural infl ''users'' \<and> singular infl ''users'' = ''user''"
    using that users by (simp add: parseUrlToType_def urlSegmentToTypeName_def)
      (simp add: resolve_defs)
  show "parseUrlToType infl ''/api/user'' = \<lparr>typeName = ''User'', isArray = False\<rparr>"
    if "\<not> isPlural infl ''user''"
    using that user by (simp add: parseUrlToType_def urlSegmentToTypeName_def)
      (simp add: resolve_defs)
  show "parseUrlToType infl ''/api/people'' = \<lparr>typeName = ''Person'', isArray = True\<rparr>"
    if "isPlural infl ''people'' \<and> singular infl ''people'' = ''person''"
    using that people by (simp add: parseUrlToType_def urlSegmentToTypeName_def)
      (simp add: resolve_defs)
  show "parseUrlToType infl ''/api/user-profiles'' = \<lparr>typeName = ''UserProfile'', isArray = True\<rparr>"
    if "isPlural infl ''user-profiles'' \<and> singular infl ''user-profiles'' = ''user-profile''"
    using that profiles by (simp add: parseUrlToType_def urlSegmentToTypeName_def)
      (simp add: resolve_defs)
qed (simp_all add: parseUrlToType_def urlSegmentToTypeName_def Let_def)

lemma sampleInflector_facts:
  "isPlural sampleInflector ''users''" "singular sampleInflector ''users'' = ''user''"
  "\<not> isPlural sampleInflector ''user''"
  "isPlural sampleInflector ''people''" "singular sampleInflector ''people'' = ''person''"
  "isPlural sampleInflector ''user-profiles''"
  "singular sampleInflector ''user-profiles'' = ''user-profile''"
  by (simp_all add: sampleInflector_def tableInflector_def)

lemma uncountableInflector_facts:
  "isPlural uncountableInflector ''sheep''" "singular uncountableInflector ''sheep'' = ''sheep''"
  by (simp_all add: uncountableInflector_def tableInflector_def)

theorem parseUrlToType_resolution_witness:
  "isPlural sampleInflector ''users'' \<and> singular sampleInflector ''users'' = ''user'' \<and>
   parseUrlToType sampleInflector ''/api/v1/users'' = \<lparr>typeName = ''User'', isArray = True\<rparr> \<and>
   \<not> isPlural sampleInflector ''user'' \<and>
   parseUrlToType sampleInflector ''/api/user'' = \<lparr>typeName = ''User'', isArray = False\<rparr> \<and>
   isPlural sampleInflector ''people'' \<and> singular sampleInflector ''people'' = ''person'' \<and>
   parseUrlToType sampleInflector ''/api/people'' = \<lparr>typeName = ''Person'', isArray = True\<rparr> \<and>
   isPlural sampleInflector ''user-profiles'' \<and>
   singular sampleInflector ''user-profiles'' = ''user-profile'' \<and>
   parseUrlToType sampleInflector ''/api/user-profiles'' =
     \<lparr>typeName = ''UserProfile'', isArray = True\<rparr> \<and>
   extractLastSegment (''/api'' @ ''/'' @ ''users'' @ replicate 2 (CHR ''/'')) = ''users'' \<and>
   toPascalCase (''user'' @ concat (map ((#) (CHR ''-'')) [''profile'', ''item''])) =
     ''UserProfileItem'' \<and>
   isPlural uncountableInflector ''sheep'' \<and>
   singular uncountableInflector ''sheep'' = ''sheep'' \<and>
   parseUrlToType uncountableInflector ''/api/sheep'' = \<lparr>typeName = ''Sheep'', isArray = True\<rparr>"
proof -
  note r = parseUrlToType_resolution [of "''users''" "''/api''" 2 sampleInflector "''/api/user''"
      "''user''" "[''profile'', ''item'']" "CHR ''-''"]
  note u = parseUrlToType_resolution [of "''users''" "''/api''" 2 uncountableInflector
      "''/api/sheep''" "''user''" "[''profile'', ''item'']" "CHR ''-''"]
  have seg: "''users'' \<noteq> [] \<and> CHR ''/'' \<notin> set ''users''" by simp
  have words: "(\<forall>w\<in>set (''user'' # [''profile'', ''item'']).
      w \<noteq> [] \<and> (\<forall>c\<in>set w. \<not> isSeparator c) \<and> \<not> isLineTerminator (hd w) \<and>
      charCode (hd w) < 128) \<and> isSeparator (CHR ''-'')"
    by (simp add: isSeparator_def isLineTerminator_def charCode_def)
  from r words have "toPascalCase (''user'' @ concat (map ((#) (CHR ''-'')) [''profile'', ''item''])) =
     concat (map (\<lambda>w. toUpperChar (hd w) # tl w) (''user'' # [''profile'', ''item'']))"
    by blast
  then have pascal: "toPascalCase (''user'' @ concat (map ((#) (CHR ''-'')) [''profile'', ''item''])) =
     ''UserProfileItem''"
    by (simp add: toUpperChar_def charCode_def)
  have sheep: "extractLastSegment ''/api/sheep'' = ''sheep''"
    and sheepName: "toPascalCase ''sheep'' = ''Sheep''"
    by (simp_all add: extractLastSegment_def toPascalCase_def isSeparator_def isLineTerminator_def
        toUpperChar_def charCode_def)
  from u uncountableInflector_facts sheep have
    "parseUrlToType uncountableInflector ''/api/sheep'' =
       \<lparr>typeName = toPascalCase ''sheep'', isArray = True\<rparr>"
    by simp
  with sheepName have self: "parseUrlToType uncountableInflector ''/api/sheep'' =
       \<lparr>typeName = ''Sheep'', isArray = True\<rparr>" by simp
  from r seg sampleInflector_facts pascal uncountableInflector_facts self show ?thesis by blast
qed

text \<open>
  The claim as stated has a segment that is already in singular form never marked as an
  array.  The word \<open>sheep\<close> is its own singular, and the resolver marks it as an array,
  because the inflector calls it plural.
\<close>

theorem parseUrlToType_uncountable_counterexample:
  "singular uncountableInflector ''sheep'' = ''sheep'' \<and>
   extractLastSegment ''/api/sheep'' = ''sheep'' \<and>
   isArray (parseUrlToType uncountableInflector ''/api/sheep'')"
  by (simp add: uncountableInflector_def tableInflector_def parseUrlToType_def
      urlSegmentToTypeName_def extractLastSegment_def)

section \<open>The root path\<close>

text \<open>
  Claim C8, as amended.  The paths \<open>/\<close> and the empty string resolve to the empty type
  name, provided the inflector leaves the empty word as it is; and whenever the
  configured directories can be scanned (every directory met can be listed and every
  \<open>.ts\<close> file met can be read), \<open>findTypeForUrl\<close> returns \<open>null\<close> for them, whatever the
  directories hold.
\<close>

theorem findTypeForUrl_root_misses:
  assumes "isPlural infl [] \<longrightarrow> singular infl [] = []"
    and "buildTypeMap fs dirs = Inr tm"
    and "url = ''/'' \<or> url = []"
  shows "typeName (parseUrlToType infl url) = [] \<and> findTypeForUrl infl fs url dirs = Inr None"
proof -
  from assms(3) have seg: "extractLastSegment url = []"
    by (auto simp: extractLastSegment_def)
  with assms(1) have name: "typeName (parseUrlToType infl url) = []"
    by (auto simp: parseUrlToType_def urlSegmentToTypeName_def toPascalCase_def Let_def)
  have "tm [] = None"
    using buildTypeMap_entries [OF assms(2), of "[]"] by (cases "tm []") auto
  with name assms(2) show ?thesis
    by (simp add: findTypeForUrl_cases)
qed

theorem findTypeForUrl_root_misses_witness:
  "\<not> isPlural sampleInflector [] \<and>
   (\<exists>tm. buildTypeMap sampleFs [''/app/contracts'', ''/ext/types''] = Inr tm) \<and>
   typeName (parseUrlToType sampleInflector ''/'') = [] \<and>
   findTypeForUrl sampleInflector sampleFs ''/'' [''/app/contracts'', ''/ext/types''] = Inr None \<and>
   findTypeForUrl sampleInflector sampleFs [] [''/app/contracts'', ''/ext/types''] = Inr None"
proof -
  have p: "\<not> isPlural sampleInflector []"
    by (simp add: sampleInflector_def tableInflector_def)
  then have h: "isPlural sampleInflector [] \<longrightarrow> singular sampleInflector [] = []" by simp
  from findTypeForUrl_root_misses [OF h sample_buildTypeMap, of "''/''"]
    findTypeForUrl_root_misses [OF h sample_buildTypeMap, of "[]"] p sample_buildTypeMap
  show ?thesis by simp
qed

text \<open>
  The claim as stated, for every state of the scanned directories, fails where a scanned
  file cannot be read: the exception of \<open>readFileSync\<close> leaves \<open>findTypeForUrl\<close>.
\<close>

theorem findTypeForUrl_root_counterexample:
  "findTypeForUrl sampleInflector lockedFs ''/'' [''/app/contracts''] =
     Inl (ReadFileFailed ''/app/contracts/secret.ts'')"
  by code_simp

section \<open>Mock or proxy\<close>

lemma serve_mock:
  "createProxyFallback config infl fs url = Inr Next \<Longrightarrow>
   serve config infl fs gen upstream g now rnd hdr url sc =
     apfst Responded
       (dynamicRouteHandler config infl fs gen now rnd (statusOverrideMiddleware hdr) url sc)"
  by (simp add: serve_def Let_def apfst_def map_prod_def split: prod.splits)

text \<open>
  Claim C3.  With an upstream configured, a request whose URL resolves to a name of the
  type map passes the gate and is answered by the mock handler, and a request whose URL
  resolves to a name the map does not hold is handed to the proxy, whose single attempt
  decides the outcome; without an upstream, every request is answered by the mock
  handler.
\<close>

theorem proxy_gate_routes:
  "(truthyString (targetUrl config) \<and> buildTypeMap fs (allDirs config) = Inr tm \<and>
    tm (typeName (parseUrlToType infl url)) \<noteq> None \<longrightarrow>
      createProxyFallback config infl fs url = Inr Next \<and>
      serve config infl fs gen upstream g now rnd hdr url sc =
        apfst Responded
          (dynamicRouteHandler config infl fs gen now rnd (statusOverrideMiddleware hdr) url sc)) \<and>
   (truthyString (targetUrl config) \<and> buildTypeMap fs (allDirs config) = Inr tm \<and>
    tm (typeName (parseUrlToType infl url)) = None \<longrightarrow>
      createProxyFallback config infl fs url = Inr Proxy \<and>
      serve config infl fs gen upstream g now rnd hdr url sc =
        (case upstream url of
           Answer u \<Rightarrow> (Relayed u, sc)
         | Failure message \<Rightarrow>
             (case onError g message of
                Some res \<Rightarrow> (Responded res, sc)
              | None \<Rightarrow> (NoResponse, sc)))) \<and>
   (\<not> truthyString (targetUrl config) \<longrightarrow>
      createProxyFallback config infl fs url = Inr Next \<and>
      serve config infl fs gen upstream g now rnd hdr url sc =
        apfst Responded
          (dynamicRouteHandler config infl fs gen now rnd (statusOverrideMiddleware hdr) url sc))"
proof (intro conjI impI)
  assume h: "truthyString (targetUrl config) \<and> buildTypeMap fs (allDirs config) = Inr tm \<and>
    tm (typeName (parseUrlToType infl url)) \<noteq> None"
  then show next1: "createProxyFallback config infl fs url = Inr Next"
    by (auto simp: createProxyFallback_def findTypeForUrl_cases)
  then show "serve config infl fs gen upstream g now rnd hdr url sc =
        apfst Responded
          (dynamicRouteHandler config infl fs gen now rnd (statusOverrideMiddleware hdr) url sc)"
    by (rule serve_mock)
next
  assume h: "truthyString (targetUrl config) \<and> buildTypeMap fs (allDirs config) = Inr tm \<and>
    tm (typeName (parseUrlToType infl url)) = None"
  then show p: "createProxyFallback config infl fs url = Inr Proxy"
    by (auto simp: createProxyFallback_def findTypeForUrl_cases)
  with h show "serve config infl fs gen upstream g now rnd hdr url sc =
        (case upstream url of
           Answer u \<Rightarrow> (Relayed u, sc)
         | Failure message \<Rightarrow>
             (case onError g message of
                Some res \<Rightarrow> (Responded res, sc)
              | None \<Rightarrow> (NoResponse, sc)))"
    by (simp add: serve_def Let_def)
next
  assume h: "\<not> truthyString (targetUrl config)"
  then show "createProxyFallback config infl fs url = Inr Next"
    by (simp add: createProxyFallback_def)
  from h show "serve config infl fs gen upstream g now rnd hdr url sc =
        apfst Responded
          (dynamicRouteHandler config infl fs gen now rnd (statusOverrideMiddleware hdr) url sc)"
    by (simp add: serve_def Let_def apfst_def map_prod_def split: prod.splits)
qed

lemma sample_allDirs:
  "allDirs sampleConfig = [''/app/contracts'', ''/ext/types'']"
  "allDirs proxyConfig = [''/app/contracts'', ''/ext/types'']"
  by (simp_all add: allDirs_def sampleConfig_def proxyConfig_def)

lemma sample_names:
  "typeName (parseUrlToType sampleInflector ''/api/users'') = ''User''"
  "typeName (parseUrlToType sampleInflector ''/api/user'') = ''User''"
  "typeName (parseUrlToType sampleInflector ''/api/invoices'') = ''Invoices''"
  by code_simp+

theorem proxy_gate_routes_witness:
  "truthyString (targetUrl proxyConfig) \<and>
   createProxyFallback proxyConfig sampleInflector sampleFs ''/api/users'' = Inr Next \<and>
   createProxyFallback proxyConfig sampleInflector sampleFs ''/api/invoices'' = Inr Proxy \<and>
   (\<forall>g. serve proxyConfig sampleInflector sampleFs sampleGenerators liveUpstream g 0 7 None
      ''/api/invoices'' globalSchemaCache =
      (Relayed ''upstream answer for /api/invoices'', globalSchemaCache)) \<and>
   \<not> truthyString (targetUrl sampleConfig) \<and>
   createProxyFallback sampleConfig sampleInflector sampleFs ''/api/invoices'' = Inr Next"
proof -
  let ?tm = "map_of [(''User'', ''/app/contracts/user.ts''), (''UserProfile'', ''/app/contracts/user.ts''),
          (''Order'', ''/app/contracts/models/order.ts''),
          (''User'', ''/ext/types/legacy.ts''), (''Person'', ''/ext/types/person.ts'')]"
  have t: "truthyString (targetUrl proxyConfig)" "\<not> truthyString (targetUrl sampleConfig)"
    by (simp_all add: truthyString_def proxyConfig_def sampleConfig_def)
  have b: "buildTypeMap sampleFs (allDirs proxyConfig) = Inr ?tm"
    by (simp only: sample_allDirs sample_buildTypeMap)
  have u: "?tm (typeName (parseUrlToType sampleInflector ''/api/users'')) \<noteq> None"
    by (simp add: sample_names)
  have i: "?tm (typeName (parseUrlToType sampleInflector ''/api/invoices'')) = None"
    by (simp add: sample_names)
  note r1 = proxy_gate_routes [of proxyConfig sampleFs ?tm sampleInflector "''/api/users''"
      sampleGenerators liveUpstream True 0 7 None globalSchemaCache, THEN conjunct1, rule_format,
      OF conjI [OF t(1) conjI [OF b u]]]
  have r2: "createProxyFallback proxyConfig sampleInflector sampleFs ''/api/invoices'' = Inr Proxy \<and>
      serve proxyConfig sampleInflector sampleFs sampleGenerators liveUpstream g 0 7 None
        ''/api/invoices'' globalSchemaCache =
        (case liveUpstream ''/api/invoices'' of
           Answer u \<Rightarrow> (Relayed u, globalSchemaCache)
         | Failure message \<Rightarrow>
             (case onError g message of
                Some res \<Rightarrow> (Responded res, globalSchemaCache)
              | None \<Rightarrow> (NoResponse, globalSchemaCache)))" for g
    using proxy_gate_routes [of proxyConfig sampleFs ?tm sampleInflector "''/api/invoices''"
      sampleGenerators liveUpstream g 0 7 None globalSchemaCache, THEN conjunct2, THEN conjunct1,
      rule_format, OF conjI [OF t(1) conjI [OF b i]]] .
  note r3 = proxy_gate_routes [of sampleConfig sampleFs ?tm sampleInflector "''/api/invoices''"
      sampleGenerators liveUpstream True 0 7 None globalSchemaCache, THEN conjunct2, THEN conjunct2,
      rule_format, OF t(2)]
  from r2 have "\<forall>g. serve proxyConfig sampleInflector sampleFs sampleGenerators liveUpstream g 0 7
      None ''/api/invoices'' globalSchemaCache =
      (Relayed ''upstream answer for /api/invoices'', globalSchemaCache)"
    by (simp add: liveUpstream_def)
  with t r1 r2 r3 show ?thesis by simp
qed

section \<open>The cache and the mock handler\<close>

lemma get_set':
  "enabled sc \<Longrightarrow>
   get (set' sc n f d t) n f =
     Some \<lparr>interfaceName = n, schemaFilePath = f, schema = d, lastUpdated = t\<rparr>"
  by (simp add: get_def set'_def)

lemma enabled_set' [simp]: "enabled (set' sc n f d t) = enabled sc"
  by (simp add: set'_def)

lemma enabled_invalidateFile [simp]: "enabled (invalidateFile sc f) = enabled sc"
  by (simp add: invalidateFile_def)

lemma store_set':
  "store (set' sc n f d t) k =
     (if enabled sc \<and> k = generateKey n f
      then Some \<lparr>interfaceName = n, schemaFilePath = f, schema = d, lastUpdated = t\<rparr>
      else store sc k)"
  by (simp add: set'_def)

lemma store_invalidateFile:
  "store (invalidateFile sc f) k =
     (case store sc k of None \<Rightarrow> None | Some v \<Rightarrow> if schemaFilePath v = f then None else Some v)"
  by (simp add: invalidateFile_def)

text \<open>The handler, branch by branch.\<close>

lemma handler_fs_error:
  "findTypeForUrl infl fs url (allDirs config) = Inl err \<Longrightarrow>
   dynamicRouteHandler config infl fs gen now rnd forced url sc =
     (\<lparr>status = orElse forced 500, body = MockGenerationFailed (FsException err)\<rparr>, sc)"
  by (simp add: dynamicRouteHandler_def)

lemma handler_not_found:
  "findTypeForUrl infl fs url (allDirs config) = Inr None \<Longrightarrow>
   dynamicRouteHandler config infl fs gen now rnd forced url sc =
     (\<lparr>status = orElse forced 404, body = TypeNotFound url\<rparr>, sc)"
  by (simp add: dynamicRouteHandler_def)

lemma handler_forced_error:
  "findTypeForUrl infl fs url (allDirs config) = Inr (Some m) \<Longrightarrow>
   truthyNumber forced \<Longrightarrow> 400 \<le> the forced \<Longrightarrow>
   dynamicRouteHandler config infl fs gen now rnd forced url sc =
     (\<lparr>status = the forced, body = ForcedError (the forced)\<rparr>, sc)"
  by (simp add: dynamicRouteHandler_def)

lemma handler_hit:
  "findTypeForUrl infl fs url (allDirs config) = Inr (Some m) \<Longrightarrow>
   \<not> (truthyNumber forced \<and> 400 \<le> the forced) \<Longrightarrow>
   cache config \<Longrightarrow> filePath m \<noteq> [] \<Longrightarrow> \<not> isArray m \<Longrightarrow>
   get sc (typeName m) (filePath m) = Some cached \<Longrightarrow>
   dynamicRouteHandler config infl fs gen now rnd forced url sc =
     (\<lparr>status = orElse forced 200, body = Payload (schema cached)\<rparr>, sc)"
  by (simp add: dynamicRouteHandler_def)

lemma handler_miss:
  "findTypeForUrl infl fs url (allDirs config) = Inr (Some m) \<Longrightarrow>
   \<not> (truthyNumber forced \<and> 400 \<le> the forced) \<Longrightarrow>
   cache config \<Longrightarrow> filePath m \<noteq> [] \<Longrightarrow> \<not> isArray m \<Longrightarrow>
   get sc (typeName m) (filePath m) = None \<Longrightarrow>
   dynamicRouteHandler config infl fs gen now rnd forced url sc =
     (case generateMockFromInterface gen rnd (filePath m) (typeName m) of
        Inl message \<Rightarrow>
          (\<lparr>status = orElse forced 500, body = MockGenerationFailed (GeneratorError message)\<rparr>, sc)
      | Inr d \<Rightarrow>
          (\<lparr>status = orElse forced 200, body = Payload (MockObject d)\<rparr>,
           set' sc (typeName m) (filePath m) (MockObject d) now))"
  by (simp add: dynamicRouteHandler_def split: sum.splits)

lemma handler_uncached:
  "findTypeForUrl infl fs url (allDirs config) = Inr (Some m) \<Longrightarrow>
   \<not> (truthyNumber forced \<and> 400 \<le> the forced) \<Longrightarrow>
   \<not> cache config \<Longrightarrow> \<not> isArray m \<Longrightarrow>
   dynamicRouteHandler config infl fs gen now rnd forced url sc =
     (case generateMockFromInterface gen rnd (filePath m) (typeName m) of
        Inl message \<Rightarrow>
          (\<lparr>status = orElse forced 500, body = MockGenerationFailed (GeneratorError message)\<rparr>, sc)
      | Inr d \<Rightarrow> (\<lparr>status = orElse forced 200, body = Payload (MockObject d)\<rparr>, sc))"
  by (simp add: dynamicRouteHandler_def split: sum.splits)

lemma handler_array:
  "findTypeForUrl infl fs url (allDirs config) = Inr (Some m) \<Longrightarrow>
   \<not> (truthyNumber forced \<and> 400 \<le> the forced) \<Longrightarrow> isArray m \<Longrightarrow>
   dynamicRouteHandler config infl fs gen now rnd forced url sc =
     (case generateMockArray gen rnd (filePath m) (typeName m) of
        Inl message \<Rightarrow>
          (\<lparr>status = orElse forced 500, body = MockGenerationFailed (GeneratorError message)\<rparr>, sc)
      | Inr items \<Rightarrow> (\<lparr>status = orElse forced 200, body = Payload (MockArray items)\<rparr>, sc))"
  by (simp add: dynamicRouteHandler_def split: sum.splits)

lemma handler_cache_effect:
  assumes "dynamicRouteHandler config infl fs gen now rnd forced url sc = (res, sc')"
  shows "sc' = sc \<or>
     (\<exists>m d. findTypeForUrl infl fs url (allDirs config) = Inr (Some m) \<and> \<not> isArray m \<and>
        cache config \<and> get sc (typeName m) (filePath m) = None \<and>
        sc' = set' sc (typeName m) (filePath m) (MockObject d) now \<and>
        body res = Payload (MockObject d))"
proof (cases "findTypeForUrl infl fs url (allDirs config)")
  case (Inl err)
  with assms show ?thesis by (simp add: handler_fs_error)
next
  case (Inr found)
  show ?thesis
  proof (cases found)
    case None
    with Inr assms show ?thesis by (simp add: handler_not_found)
  next
    case (Some m)
    with Inr have f: "findTypeForUrl infl fs url (allDirs config) = Inr (Some m)" by simp
    from findTypeForUrl_mapping [OF f] have fp: "filePath m \<noteq> []" by simp
    show ?thesis
    proof (cases "truthyNumber forced \<and> 400 \<le> the forced")
      case True
      with f assms show ?thesis by (simp add: handler_forced_error)
    next
      case nf: False
      show ?thesis
      proof (cases "isArray m")
        case True
        from assms show ?thesis
          unfolding handler_array [OF f nf True] by (auto split: sum.splits)
      next
        case na: False
        show ?thesis
        proof (cases "cache config")
          case False
          from assms show ?thesis
            unfolding handler_uncached [OF f nf False na] by (auto split: sum.splits)
        next
          case c: True
          show ?thesis
          proof (cases "get sc (typeName m) (filePath m)")
            case None
            from assms f na c None show ?thesis
              unfolding handler_miss [OF f nf c fp na None] by (auto split: sum.splits)
          next
            case (Some cached)
            from assms show ?thesis
              unfolding handler_hit [OF f nf c fp na Some] by simp
          qed
        qed
      qed
    qed
  qed
qed

lemma handler_array_ignores_cache:
  assumes f: "findTypeForUrl infl fs url (allDirs config) = Inr (Some m)" and a: "isArray m"
  shows "dynamicRouteHandler config infl fs gen now rnd forced url sc =
         (fst (dynamicRouteHandler config infl fs gen now rnd forced url sc2), sc)"
proof (cases "truthyNumber forced \<and> 400 \<le> the forced")
  case True
  with f show ?thesis by (simp add: handler_forced_error)
next
  case False
  show ?thesis
    unfolding handler_array [OF f False a] by (simp split: sum.splits)
qed

lemma statusOverride_iff:
  "statusOverrideMiddleware hdr = Some n \<longleftrightarrow>
     (\<exists>s. hdr = Some s \<and> s \<noteq> [] \<and> parseInt s = Some n \<and> 100 \<le> n \<and> n < 600)"
  by (cases hdr) (auto simp: statusOverrideMiddleware_def truthyString_def split: option.splits)

lemma orElse_simps [simp]:
  "orElse None fallback = fallback"
  "n \<noteq> 0 \<Longrightarrow> orElse (Some n) fallback = n"
  by (simp_all add: orElse_def truthyNumber_def)

lemma handler_forced_error_any:
  assumes "400 \<le> n"
  shows "dynamicRouteHandler config infl fs gen now rnd (Some n) url sc =
     (\<lparr>status = n,
       body = (case findTypeForUrl infl fs url (allDirs config) of
                 Inl err \<Rightarrow> MockGenerationFailed (FsException err)
               | Inr None \<Rightarrow> TypeNotFound url
               | Inr (Some m) \<Rightarrow> ForcedError n)\<rparr>, sc)"
proof -
  from assms have n: "n \<noteq> 0" "truthyNumber (Some n)" "400 \<le> the (Some n)"
    by (simp_all add: truthyNumber_def)
  show ?thesis
  proof (cases "findTypeForUrl infl fs url (allDirs config)")
    case (Inl err)
    with n show ?thesis by (simp add: handler_fs_error)
  next
    case (Inr found)
    show ?thesis
    proof (cases found)
      case None
      with Inr n show ?thesis by (simp add: handler_not_found)
    next
      case (Some m)
      with Inr have "findTypeForUrl infl fs url (allDirs config) = Inr (Some m)" by simp
      from handler_forced_error [OF this n(2,3)] this show ?thesis by simp
    qed
  qed
qed

lemma handler_forced_success:
  assumes "n \<noteq> 0" "n < 400"
  shows "dynamicRouteHandler config infl fs gen now rnd (Some n) url sc =
     apfst (\<lambda>r. r\<lparr>status := n\<rparr>) (dynamicRouteHandler config infl fs gen now rnd None url sc)"
  using assms
  by (auto simp: dynamicRouteHandler_def Let_def truthyNumber_def
      split: sum.splits option.splits)

lemma sample_find:
  "findTypeForUrl sampleInflector sampleFs ''/api/users'' (allDirs sampleConfig) =
     Inr (Some \<lparr>typeName = ''User'', isArray = True, filePath = ''/app/contracts/user.ts''\<rparr>)"
  "findTypeForUrl sampleInflector sampleFs ''/api/user'' (allDirs sampleConfig) =
     Inr (Some \<lparr>typeName = ''User'', isArray = False, filePath = ''/app/contracts/user.ts''\<rparr>)"
  "findTypeForUrl sampleInflector sampleFs ''/api/invoices'' (allDirs sampleConfig) = Inr None"
  by code_simp+

lemma sample_status:
  "statusOverrideMiddleware (Some ''503'') = Some 503"
  "statusOverrideMiddleware (Some ''201'') = Some 201"
  "statusOverrideMiddleware (Some ''600'') = None"
  "statusOverrideMiddleware (Some ''99'') = None"
  "statusOverrideMiddleware (Some ''teapot'') = None"
  "statusOverrideMiddleware None = None"
  by code_simp+

lemma sample_handler_user:
  "dynamicRouteHandler sampleConfig sampleInflector sampleFs sampleGenerators 1000 7 None
     ''/api/user'' globalSchemaCache =
   (\<lparr>status = 200, body = Payload (MockObject (''User'', 7))\<rparr>,
    set' globalSchemaCache ''User'' ''/app/contracts/user.ts'' (MockObject (''User'', 7)) 1000)"
proof -
  have c: "cache sampleConfig" by (simp add: sampleConfig_def)
  have g: "get globalSchemaCache ''User'' ''/app/contracts/user.ts'' = None"
    by (simp add: get_def globalSchemaCache_def newSchemaCache_def)
  show ?thesis
    using handler_miss [OF sample_find(2) _ c _ _ , of None globalSchemaCache sampleGenerators 1000 7] g
    by (simp add: truthyNumber_def sampleGenerators_def)
qed

lemma sample_handler_users:
  "dynamicRouteHandler sampleConfig sampleInflector sampleFs sampleGenerators 1000 7 None
     ''/api/users'' sc =
   (\<lparr>status = 200, body = Payload (MockArray [(''User'', 7), (''User'', 8), (''User'', 9)])\<rparr>, sc)"
  using handler_array [OF sample_find(1), of None sampleGenerators 1000 7 sc]
  by (simp add: truthyNumber_def sampleGenerators_def)

text \<open>
  Claim C6.  A request changes the cache at one key at most, and only when its URL
  resolved to a mapping that is not an array, the configuration enables the cache and the
  lookup under that key missed; the entry written is the object just generated.  For a
  mapping that is an array the cache is left as it was and the response does not depend
  on it.  No request ever stores an array.
\<close>

theorem cache_entries_only_for_singular_misses:
  assumes "dynamicRouteHandler config infl fs gen now rnd forced url sc = (res, sc')"
  shows "enabled sc' = enabled sc \<and>
    (\<forall>k. store sc' k \<noteq> store sc k \<longrightarrow>
       (\<exists>m d. findTypeForUrl infl fs url (allDirs config) = Inr (Some m) \<and> \<not> isArray m \<and>
          cache config \<and> get sc (typeName m) (filePath m) = None \<and>
          k = generateKey (typeName m) (filePath m) \<and>
          store sc' k = Some \<lparr>interfaceName = typeName m, schemaFilePath = filePath m,
                               schema = MockObject d, lastUpdated = now\<rparr> \<and>
          body res = Payload (MockObject d))) \<and>
    (\<forall>m. findTypeForUrl infl fs url (allDirs config) = Inr (Some m) \<and> isArray m \<longrightarrow>
       sc' = sc \<and>
       (\<forall>sc2. fst (dynamicRouteHandler config infl fs gen now rnd forced url sc2) = res)) \<and>
    ((\<forall>k v. store sc k = Some v \<longrightarrow> (\<exists>d. schema v = MockObject d)) \<longrightarrow>
     (\<forall>k v. store sc' k = Some v \<longrightarrow> (\<exists>d. schema v = MockObject d)))"
proof (intro conjI allI impI)
  from handler_cache_effect [OF assms] show "enabled sc' = enabled sc" by auto
next
  fix k assume k: "store sc' k \<noteq> store sc k"
  with handler_cache_effect [OF assms] obtain m d where
    m: "findTypeForUrl infl fs url (allDirs config) = Inr (Some m)" "\<not> isArray m" "cache config"
      "get sc (typeName m) (filePath m) = None"
      "sc' = set' sc (typeName m) (filePath m) (MockObject d) now"
      "body res = Payload (MockObject d)"
    by auto
  from k m(5) have "enabled sc \<and> k = generateKey (typeName m) (filePath m)"
    by (auto simp: store_set' split: if_splits)
  with m show "\<exists>m d. findTypeForUrl infl fs url (allDirs config) = Inr (Some m) \<and> \<not> isArray m \<and>
          cache config \<and> get sc (typeName m) (filePath m) = None \<and>
          k = generateKey (typeName m) (filePath m) \<and>
          store sc' k = Some \<lparr>interfaceName = typeName m, schemaFilePath = filePath m,
                               schema = MockObject d, lastUpdated = now\<rparr> \<and>
          body res = Payload (MockObject d)"
    by (intro exI [of _ m] exI [of _ d]) (simp add: store_set')
next
  fix m assume m: "findTypeForUrl infl fs url (allDirs config) = Inr (Some m) \<and> isArray m"
  from handler_array_ignores_cache [of infl fs url config m gen now rnd forced sc sc] m assms
  show "sc' = sc" by simp
next
  fix m sc2 assume m: "findTypeForUrl infl fs url (allDirs config) = Inr (Some m) \<and> isArray m"
  from handler_array_ignores_cache [of infl fs url config m gen now rnd forced sc sc2] m assms
  show "fst (dynamicRouteHandler config infl fs gen now rnd forced url sc2) = res" by simp
next
  fix k v
  assume inv: "\<forall>k v. store sc k = Some v \<longrightarrow> (\<exists>d. schema v = MockObject d)"
    and v: "store sc' k = Some v"
  from handler_cache_effect [OF assms] show "\<exists>d. schema v = MockObject d"
  proof
    assume "sc' = sc"
    with inv v show ?thesis by blast
  next
    assume "\<exists>m d. findTypeForUrl infl fs url (allDirs config) = Inr (Some m) \<and> \<not> isArray m \<and>
        cache config \<and> get sc (typeName m) (filePath m) = None \<and>
        sc' = set' sc (typeName m) (filePath m) (MockObject d) now \<and>
        body res = Payload (MockObject d)"
    then obtain m :: routeTypeMapping and d
      where "sc' = set' sc (typeName m) (filePath m) (MockObject d) now" by blast
    with inv v show ?thesis
      by (auto simp: store_set' split: if_splits)
  qed
qed

theorem cache_entries_only_for_singular_misses_witness:
  "dynamicRouteHandler sampleConfig sampleInflector sampleFs sampleGenerators 1000 7 None
     ''/api/users'' globalSchemaCache =
     (\<lparr>status = 200, body = Payload (MockArray [(''User'', 7), (''User'', 8), (''User'', 9)])\<rparr>,
      globalSchemaCache) \<and>
   (\<forall>sc2. fst (dynamicRouteHandler sampleConfig sampleInflector sampleFs sampleGenerators 1000 7
       None ''/api/users'' sc2) =
     \<lparr>status = 200, body = Payload (MockArray [(''User'', 7), (''User'', 8), (''User'', 9)])\<rparr>) \<and>
   dynamicRouteHandler sampleConfig sampleInflector sampleFs sampleGenerators 1000 7 None
     ''/api/user'' globalSchemaCache =
     (\<lparr>status = 200, body = Payload (MockObject (''User'', 7))\<rparr>,
      set' globalSchemaCache ''User'' ''/app/contracts/user.ts'' (MockObject (''User'', 7)) 1000) \<and>
   enabled (set' globalSchemaCache ''User'' ''/app/contracts/user.ts''
      (MockObject (''User'', 7 :: nat)) 1000) = enabled (globalSchemaCache :: (string \<times> nat) schemaCache)"
proof -
  note a = cache_entries_only_for_singular_misses [OF sample_handler_users [of globalSchemaCache]]
  note b = cache_entries_only_for_singular_misses [OF sample_handler_user]
  from a sample_find(1) have "\<forall>sc2. fst (dynamicRouteHandler sampleConfig sampleInflector sampleFs
       sampleGenerators 1000 7 None ''/api/users'' sc2) =
     \<lparr>status = 200, body = Payload (MockArray [(''User'', 7), (''User'', 8), (''User'', 9)])\<rparr>"
    by simp
  moreover from b have "enabled (set' globalSchemaCache ''User'' ''/app/contracts/user.ts''
      (MockObject (''User'', 7 :: nat)) 1000) = enabled (globalSchemaCache :: (string \<times> nat) schemaCache)"
    by blast
  ultimately show ?thesis
    using sample_handler_users [of globalSchemaCache] sample_handler_user by blast
qed

section \<open>The forced status\<close>

text \<open>
  Claim C10.  The header is honoured exactly when it is a non-empty string from which
  \<open>parseInt\<close> reads an integer between 100 and 599, and that integer is the forced
  status.  With a forced status of at least 400 the handler answers with that status and
  an error body, never a payload, whatever the generators would produce, and leaves the
  cache as it was; where the URL resolved to a type, the body is the forced-error body.
  With a forced status below 400 the handler does what it does without one, and only the
  status of the response is replaced.
\<close>

theorem forced_status:
  "(statusOverrideMiddleware hdr = Some n \<longleftrightarrow>
      (\<exists>s. hdr = Some s \<and> s \<noteq> [] \<and> parseInt s = Some n \<and> 100 \<le> n \<and> n < 600)) \<and>
   (400 \<le> k \<and> dynamicRouteHandler config infl fs gen now rnd (Some k) url sc = (res, sc') \<longrightarrow>
      status res = k \<and> sc' = sc \<and> (\<forall>d. body res \<noteq> Payload d) \<and>
      (\<forall>m. findTypeForUrl infl fs url (allDirs config) = Inr (Some m) \<longrightarrow>
         body res = ForcedError k) \<and>
      (\<forall>gen' now' rnd'.
         dynamicRouteHandler config infl fs gen' now' rnd' (Some k) url sc = (res, sc))) \<and>
   (j \<noteq> 0 \<and> j < 400 \<longrightarrow>
      dynamicRouteHandler config infl fs gen now rnd (Some j) url sc =
        apfst (\<lambda>r. r\<lparr>status := j\<rparr>)
          (dynamicRouteHandler config infl fs gen now rnd None url sc))"
proof (intro conjI impI)
  show "statusOverrideMiddleware hdr = Some n \<longleftrightarrow>
      (\<exists>s. hdr = Some s \<and> s \<noteq> [] \<and> parseInt s = Some n \<and> 100 \<le> n \<and> n < 600)"
    by (rule statusOverride_iff)
next
  assume h: "400 \<le> k \<and> dynamicRouteHandler config infl fs gen now rnd (Some k) url sc = (res, sc')"
  then have k: "400 \<le> k" by simp
  from h have r: "res = \<lparr>status = k,
       body = (case findTypeForUrl infl fs url (allDirs config) of
                 Inl err \<Rightarrow> MockGenerationFailed (FsException err)
               | Inr None \<Rightarrow> TypeNotFound url
               | Inr (Some m) \<Rightarrow> ForcedError k)\<rparr>" and s: "sc' = sc"
    by (simp_all add: handler_forced_error_any [OF k])
  from r show "status res = k" by simp
  from s show "sc' = sc" .
  from r show "\<forall>d. body res \<noteq> Payload d"
    by (auto split: sum.splits option.splits)
  from r show "\<forall>m. findTypeForUrl infl fs url (allDirs config) = Inr (Some m) \<longrightarrow>
         body res = ForcedError k"
    by auto
  from r show "\<forall>gen' now' rnd'.
         dynamicRouteHandler config infl fs gen' now' rnd' (Some k) url sc = (res, sc)"
    by (simp add: handler_forced_error_any [OF k])
next
  assume "j \<noteq> 0 \<and> j < 400"
  then show "dynamicRouteHandler config infl fs gen now rnd (Some j) url sc =
        apfst (\<lambda>r. r\<lparr>status := j\<rparr>)
          (dynamicRouteHandler config infl fs gen now rnd None url sc)"
    by (simp add: handler_forced_success)
qed

theorem forced_status_witness:
  "statusOverrideMiddleware (Some ''503'') = Some 503 \<and>
   parseInt ''503'' = Some 503 \<and>
   dynamicRouteHandler sampleConfig sampleInflector sampleFs sampleGenerators 1000 7
     (statusOverrideMiddleware (Some ''503'')) ''/api/user'' globalSchemaCache =
     (\<lparr>status = 503, body = ForcedError 503\<rparr>, globalSchemaCache) \<and>
   statusOverrideMiddleware (Some ''201'') = Some 201 \<and>
   dynamicRouteHandler sampleConfig sampleInflector sampleFs sampleGenerators 1000 7
     (statusOverrideMiddleware (Some ''201'')) ''/api/user'' globalSchemaCache =
     (\<lparr>status = 201, body = Payload (MockObject (''User'', 7))\<rparr>,
      set' globalSchemaCache ''User'' ''/app/contracts/user.ts'' (MockObject (''User'', 7)) 1000)"
proof -
  obtain res sc' where e: "dynamicRouteHandler sampleConfig sampleInflector sampleFs sampleGenerators
     1000 7 (Some 503) ''/api/user'' globalSchemaCache = (res, sc')"
    by (cases "dynamicRouteHandler sampleConfig sampleInflector sampleFs sampleGenerators
     1000 7 (Some 503) ''/api/user'' globalSchemaCache") blast
  have k: "(400::int) \<le> 503" by simp
  note f = forced_status [of "Some ''503''" 503 503 sampleConfig sampleInflector sampleFs
      sampleGenerators 1000 7 "''/api/user''" globalSchemaCache res sc' 201]
  from f have p: "parseInt ''503'' = Some 503"
    using sample_status(1) by auto
  from f [THEN conjunct2, THEN conjunct1, rule_format, OF conjI [OF k e]] sample_find(2)
  have "status res = 503" "sc' = globalSchemaCache" "body res = ForcedError 503" by auto
  then have r: "(res, sc') = (\<lparr>status = 503, body = ForcedError 503\<rparr>, globalSchemaCache)"
    by (cases res) simp
  have j: "(201::int) \<noteq> 0 \<and> (201::int) < 400" by simp
  from f [THEN conjunct2, THEN conjunct2, rule_format, OF j]
  have s: "dynamicRouteHandler sampleConfig sampleInflector sampleFs sampleGenerators 1000 7
     (Some 201) ''/api/user'' globalSchemaCache =
     (\<lparr>status = 201, body = Payload (MockObject (''User'', 7))\<rparr>,
      set' globalSchemaCache ''User'' ''/app/contracts/user.ts'' (MockObject (''User'', 7)) 1000)"
    by (simp add: sample_handler_user)
  from p e r s show ?thesis by (simp add: sample_status)
qed

section \<open>Two consecutive requests\<close>

lemma isWord_not_colon: "isWord c \<Longrightarrow> c \<noteq> CHR '':''"
  by (auto simp: isWord_def charCode_def)

lemma generateKey_inj:
  assumes "\<forall>c\<in>set n. isWord c" "\<forall>c\<in>set n'. isWord c" "generateKey n f = generateKey n' f'"
  shows "n = n' \<and> f = f'"
proof -
  let ?P = "\<lambda>c. c \<noteq> CHR '':''"
  have tw: "takeWhile ?P (rev w @ CHR '':'' # rest) = rev w" if "\<forall>c\<in>set w. isWord c" for w rest
    using that by (simp add: takeWhile_tail takeWhile_eq_all_conv isWord_not_colon)
  from assms(3) have "rev (f @ ''::'' @ n) = rev (f' @ ''::'' @ n')"
    by (simp add: generateKey_def)
  then have e: "rev n @ CHR '':'' # CHR '':'' # rev f = rev n' @ CHR '':'' # CHR '':'' # rev f'"
    by simp
  have "rev n = rev n'"
    using tw [OF assms(1), of "CHR '':'' # rev f"] tw [OF assms(2), of "CHR '':'' # rev f'"] e
    by simp
  then have n: "n = n'" by simp
  with e have "f = f'" by simp
  with n show ?thesis by simp
qed

lemma wellKeyed_new: "wellKeyed (newSchemaCache en)"
  by (simp add: wellKeyed_def newSchemaCache_def)

lemma wellKeyed_set':
  "wellKeyed sc \<Longrightarrow> \<forall>c\<in>set n. isWord c \<Longrightarrow> wellKeyed (set' sc n f d t)"
  by (auto simp: wellKeyed_def store_set' split: if_splits)

lemma wellKeyed_invalidateFile: "wellKeyed sc \<Longrightarrow> wellKeyed (invalidateFile sc f)"
  by (auto simp: wellKeyed_def store_invalidateFile split: option.splits if_splits)

lemma get_invalidateFile:
  assumes "wellKeyed sc" "\<forall>c\<in>set n. isWord c"
  shows "get (invalidateFile sc f) n f = None"
proof (cases "store sc (generateKey n f)")
  case None
  then show ?thesis by (simp add: get_def store_invalidateFile)
next
  case (Some v)
  with assms(1) have "generateKey n f = generateKey (interfaceName v) (schemaFilePath v)"
    and "\<forall>c\<in>set (interfaceName v). isWord c"
    by (auto simp: wellKeyed_def)
  with generateKey_inj [OF assms(2)] have "schemaFilePath v = f" by metis
  with Some show ?thesis by (simp add: get_def store_invalidateFile)
qed

lemma invalidateFile_set':
  assumes "wellKeyed sc" "\<forall>c\<in>set n. isWord c"
  shows "invalidateFile (set' sc n f d t) f = invalidateFile sc f"
proof (cases "enabled sc")
  case False
  then show ?thesis by (simp add: set'_def)
next
  case True
  have "store (invalidateFile (set' sc n f d t) f) k = store (invalidateFile sc f) k" for k
  proof (cases "k = generateKey n f")
    case False
    then show ?thesis by (simp add: store_invalidateFile store_set')
  next
    case k: True
    have "store (invalidateFile sc f) (generateKey n f) = None"
      using get_invalidateFile [OF assms, of f] True by (simp add: get_def)
    with k True show ?thesis by (simp add: store_invalidateFile store_set')
  qed
  then have "store (invalidateFile (set' sc n f d t) f) = store (invalidateFile sc f)"
    by (rule ext)
  then show ?thesis
    by (simp add: invalidateFile_def set'_def)
qed

lemma handler_regenerates:
  assumes f: "findTypeForUrl infl fs url (allDirs config) = Inr (Some m)" and na: "\<not> isArray m"
    and nf: "\<not> (truthyNumber forced \<and> 400 \<le> the forced)"
    and miss: "\<not> cache config \<or> get sc (typeName m) (filePath m) = None"
  shows "fst (dynamicRouteHandler config infl fs gen now rnd forced url sc) =
         generated gen rnd forced m"
proof (cases "cache config")
  case False
  show ?thesis
    unfolding handler_uncached [OF f nf False na] by (simp add: generated_def split: sum.splits)
next
  case True
  with miss have g: "get sc (typeName m) (filePath m) = None" by simp
  from findTypeForUrl_mapping [OF f] have fp: "filePath m \<noteq> []" by simp
  show ?thesis
    unfolding handler_miss [OF f nf True fp na g] by (simp add: generated_def split: sum.splits)
qed

lemma sample_find_nocache:
  "findTypeForUrl sampleInflector sampleFs ''/api/user'' (allDirs noCacheConfig) =
     Inr (Some \<lparr>typeName = ''User'', isArray = False, filePath = ''/app/contracts/user.ts''\<rparr>)"
  by code_simp

text \<open>
  Claim C5.  Take two consecutive requests for a URL that resolves, for both, to the same
  mapping, which is not an array; the second request forces no error status.  With the
  cache enabled, if the first response carried a payload, the second carries the same
  payload and leaves the cache as it is.  With the cache disabled by the configuration,
  the first request writes nothing and the second response is generated afresh from the
  second request's own randomness.  If the watcher reports a change or a removal of the
  mapping's file between the two, the cache the second request meets is the one an
  invalidation of the cache before the first request would have left, and the second
  response is generated afresh.
\<close>

theorem consecutive_singular_requests:
  assumes first: "dynamicRouteHandler config infl fs gen t1 r1 f1 url sc0 = (res1, sc1)"
    and f: "findTypeForUrl infl fs url (allDirs config) = Inr (Some m)"
    and f2: "findTypeForUrl infl fs2 url (allDirs config) = Inr (Some m)"
    and na: "\<not> isArray m"
    and nf: "\<not> (truthyNumber forced2 \<and> 400 \<le> the forced2)"
  shows
    "(cache config \<and> enabled sc0 \<and> body res1 = Payload p \<longrightarrow>
        dynamicRouteHandler config infl fs2 gen2 t2 r2 forced2 url sc1 =
          (\<lparr>status = orElse forced2 200, body = Payload p\<rparr>, sc1)) \<and>
     (\<not> cache config \<longrightarrow>
        sc1 = sc0 \<and>
        dynamicRouteHandler config infl fs2 gen2 t2 r2 forced2 url sc1 =
          (generated gen2 r2 forced2 m, sc1)) \<and>
     (wellKeyed sc0 \<and> (ev = Change (filePath m) \<or> ev = Unlink (filePath m)) \<longrightarrow>
        fst (onWatchEvent cb ev (sc1, app)) = invalidateFile sc0 (filePath m) \<and>
        fst (dynamicRouteHandler config infl fs2 gen2 t2 r2 forced2 url
               (fst (onWatchEvent cb ev (sc1, app)))) =
          generated gen2 r2 forced2 m)"
proof (intro conjI impI)
  from findTypeForUrl_mapping [OF f] have fp: "filePath m \<noteq> []"
    and w: "\<forall>c\<in>set (typeName m). isWord c" by simp_all
  note effect = handler_cache_effect [OF first]
  {
    assume h: "cache config \<and> enabled sc0 \<and> body res1 = Payload p"
    then have c: "cache config" and en: "enabled sc0" and p: "body res1 = Payload p" by simp_all
    have nf1: "\<not> (truthyNumber f1 \<and> 400 \<le> the f1)"
    proof
      assume "truthyNumber f1 \<and> 400 \<le> the f1"
      with first p show False by (auto simp: handler_forced_error [OF f])
    qed
    have "\<exists>cached. get sc1 (typeName m) (filePath m) = Some cached \<and> schema cached = p"
    proof (cases "get sc0 (typeName m) (filePath m)")
      case (Some cached)
      from first p Some show ?thesis
        unfolding handler_hit [OF f nf1 c fp na Some] by auto
    next
      case None
      from first p obtain d where "sc1 = set' sc0 (typeName m) (filePath m) (MockObject d) t1"
        "p = MockObject d"
        unfolding handler_miss [OF f nf1 c fp na None] by (auto split: sum.splits)
      with en show ?thesis by (simp add: get_set')
    qed
    then obtain cached where "get sc1 (typeName m) (filePath m) = Some cached" "schema cached = p"
      by blast
    with handler_hit [OF f2 nf c fp na, of sc1 cached gen2 t2 r2]
    show "dynamicRouteHandler config infl fs2 gen2 t2 r2 forced2 url sc1 =
          (\<lparr>status = orElse forced2 200, body = Payload p\<rparr>, sc1)" by simp
  }
  {
    assume nc: "\<not> cache config"
    with effect show "sc1 = sc0" by auto
    from nc show "dynamicRouteHandler config infl fs2 gen2 t2 r2 forced2 url sc1 =
          (generated gen2 r2 forced2 m, sc1)"
      unfolding handler_uncached [OF f2 nf nc na] by (simp add: generated_def split: sum.splits)
  }
  {
    assume h: "wellKeyed sc0 \<and> (ev = Change (filePath m) \<or> ev = Unlink (filePath m))"
    then have wk: "wellKeyed sc0" by simp
    from h have ev: "fst (onWatchEvent cb ev (sc1, app)) = invalidateFile sc1 (filePath m)"
      by auto
    from effect f have "invalidateFile sc1 (filePath m) = invalidateFile sc0 (filePath m)"
      by (auto simp: invalidateFile_set' [OF wk w])
    with ev show inv: "fst (onWatchEvent cb ev (sc1, app)) = invalidateFile sc0 (filePath m)"
      by simp
    have "get (invalidateFile sc0 (filePath m)) (typeName m) (filePath m) = None"
      by (rule get_invalidateFile [OF wk w])
    with handler_regenerates [OF f2 na nf, of "invalidateFile sc0 (filePath m)" gen2 t2 r2]
    show "fst (dynamicRouteHandler config infl fs2 gen2 t2 r2 forced2 url
               (fst (onWatchEvent cb ev (sc1, app)))) =
          generated gen2 r2 forced2 m"
      by (simp add: inv)
  }
qed

theorem consecutive_singular_requests_witness:
  "dynamicRouteHandler sampleConfig sampleInflector sampleFs sampleGenerators 1000 7 None
     ''/api/user'' globalSchemaCache =
     (\<lparr>status = 200, body = Payload (MockObject (''User'', 7))\<rparr>,
      set' globalSchemaCache ''User'' ''/app/contracts/user.ts'' (MockObject (''User'', 7)) 1000) \<and>
   cache sampleConfig \<and> enabled (globalSchemaCache :: (string \<times> nat) schemaCache) \<and>
   wellKeyed (globalSchemaCache :: (string \<times> nat) schemaCache) \<and>
   dynamicRouteHandler sampleConfig sampleInflector sampleFs sampleGenerators 2000 8 None
     ''/api/user''
     (set' globalSchemaCache ''User'' ''/app/contracts/user.ts'' (MockObject (''User'', 7)) 1000) =
     (\<lparr>status = 200, body = Payload (MockObject (''User'', 7))\<rparr>,
      set' globalSchemaCache ''User'' ''/app/contracts/user.ts'' (MockObject (''User'', 7)) 1000) \<and>
   fst (dynamicRouteHandler sampleConfig sampleInflector sampleFs sampleGenerators 2000 8 None
     ''/api/user''
     (fst (onWatchEvent (Some countReload) (Change ''/app/contracts/user.ts'')
        (set' globalSchemaCache ''User'' ''/app/contracts/user.ts'' (MockObject (''User'', 7)) 1000,
         0 :: nat)))) =
     \<lparr>status = 200, body = Payload (MockObject (''User'', 8))\<rparr>"
proof -
  let ?m = "\<lparr>typeName = ''User'', isArray = False, filePath = ''/app/contracts/user.ts''\<rparr>"
  have na: "\<not> isArray ?m" by simp
  have nf: "\<not> (truthyNumber None \<and> 400 \<le> the None)" by (simp add: truthyNumber_def)
  have c: "cache sampleConfig" by (simp add: sampleConfig_def)
  have en: "enabled (globalSchemaCache :: (string \<times> nat) schemaCache)"
    by (simp add: globalSchemaCache_def newSchemaCache_def)
  have wk: "wellKeyed (globalSchemaCache :: (string \<times> nat) schemaCache)"
    by (simp add: globalSchemaCache_def wellKeyed_new)
  have b: "body \<lparr>status = 200, body = Payload (MockObject (''User'', 7 :: nat))\<rparr> =
      Payload (MockObject (''User'', 7))" by simp
  have g: "generated sampleGenerators 8 None ?m =
      \<lparr>status = 200, body = Payload (MockObject (''User'', 8))\<rparr>"
    by (simp add: generated_def sampleGenerators_def)
  note t = consecutive_singular_requests [OF sample_handler_user sample_find(2) sample_find(2) na nf,
      of "MockObject (''User'', 7)" sampleGenerators 2000 8 "Change ''/app/contracts/user.ts''"
        "Some countReload" "0 :: nat"]
  from t c en b have second: "dynamicRouteHandler sampleConfig sampleInflector sampleFs
     sampleGenerators 2000 8 None ''/api/user''
     (set' globalSchemaCache ''User'' ''/app/contracts/user.ts'' (MockObject (''User'', 7)) 1000) =
     (\<lparr>status = 200, body = Payload (MockObject (''User'', 7))\<rparr>,
      set' globalSchemaCache ''User'' ''/app/contracts/user.ts'' (MockObject (''User'', 7)) 1000)"
    by simp
  have ch: "Change ''/app/contracts/user.ts'' = Change (filePath ?m) \<or>
      Change ''/app/contracts/user.ts'' = Unlink (filePath ?m)" by simp
  note t3 = t [THEN conjunct2, THEN conjunct2, rule_format, OF conjI [OF wk ch], THEN conjunct2]
  from t3 have third: "fst (dynamicRouteHandler sampleConfig sampleInflector sampleFs
     sampleGenerators 2000 8 None ''/api/user''
     (fst (onWatchEvent (Some countReload) (Change ''/app/contracts/user.ts'')
        (set' globalSchemaCache ''User'' ''/app/contracts/user.ts'' (MockObject (''User'', 7)) 1000,
         0 :: nat)))) =
     \<lparr>status = 200, body = Payload (MockObject (''User'', 8))\<rparr>"
    by (simp only: g)
  from sample_handler_user c en wk second third show ?thesis by blast
qed

section \<open>Watch events\<close>

text \<open>
  Claim C4, as amended.  On a change or a removal of a file the watcher removes every
  cache entry of that file and leaves every other entry as it is.  On a change and on an
  addition it calls the optional callback with the path; an addition leaves the cache
  untouched; on an error of the watcher nothing changes.  No type map is kept between
  requests for the watcher to rebuild: whenever a URL resolves, it resolves against the
  type map built from the directories as they are at that request.
\<close>

theorem watcher_events:
  "(ev = Change f \<or> ev = Unlink f \<longrightarrow>
      enabled (fst (onWatchEvent cb ev (sc, app))) = enabled sc \<and>
      (\<forall>k v. store sc k = Some v \<and> schemaFilePath v = f \<longrightarrow>
         store (fst (onWatchEvent cb ev (sc, app))) k = None) \<and>
      (\<forall>k v. store sc k = Some v \<and> schemaFilePath v \<noteq> f \<longrightarrow>
         store (fst (onWatchEvent cb ev (sc, app))) k = Some v) \<and>
      (\<forall>k. store sc k = None \<longrightarrow> store (fst (onWatchEvent cb ev (sc, app))) k = None)) \<and>
   snd (onWatchEvent cb (Change f) (sc, app)) =
     (case cb of None \<Rightarrow> app | Some callback \<Rightarrow> callback f app) \<and>
   onWatchEvent cb (Add f) (sc, app) =
     (sc, case cb of None \<Rightarrow> app | Some callback \<Rightarrow> callback f app) \<and>
   onWatchEvent cb (WatcherError message) (sc, app) = (sc, app) \<and>
   (findTypeForUrl infl fs url dirs = Inr (Some m) \<longrightarrow>
      (\<exists>tm. buildTypeMap fs dirs = Inr tm \<and> tm (typeName m) = Some (filePath m)))"
proof (intro conjI impI)
  assume "ev = Change f \<or> ev = Unlink f"
  then have e: "fst (onWatchEvent cb ev (sc, app)) = invalidateFile sc f" by auto
  show "enabled (fst (onWatchEvent cb ev (sc, app))) = enabled sc"
    by (simp add: e)
  show "\<forall>k v. store sc k = Some v \<and> schemaFilePath v = f \<longrightarrow>
         store (fst (onWatchEvent cb ev (sc, app))) k = None"
    by (simp add: e store_invalidateFile)
  show "\<forall>k v. store sc k = Some v \<and> schemaFilePath v \<noteq> f \<longrightarrow>
         store (fst (onWatchEvent cb ev (sc, app))) k = Some v"
    by (simp add: e store_invalidateFile)
  show "\<forall>k. store sc k = None \<longrightarrow> store (fst (onWatchEvent cb ev (sc, app))) k = None"
    by (simp add: e store_invalidateFile)
next
  assume "findTypeForUrl infl fs url dirs = Inr (Some m)"
  from findTypeForUrl_mapping [OF this]
  show "\<exists>tm. buildTypeMap fs dirs = Inr tm \<and> tm (typeName m) = Some (filePath m)" by blast
qed simp_all

theorem watcher_events_witness:
  "store (set' globalSchemaCache ''User'' ''/app/contracts/user.ts'' (MockObject (''User'', 7 :: nat)) 1000)
     (generateKey ''User'' ''/app/contracts/user.ts'') =
     Some \<lparr>interfaceName = ''User'', schemaFilePath = ''/app/contracts/user.ts'',
            schema = MockObject (''User'', 7), lastUpdated = 1000\<rparr> \<and>
   store (fst (onWatchEvent (Some countReload) (Unlink ''/app/contracts/user.ts'')
      (set' globalSchemaCache ''User'' ''/app/contracts/user.ts'' (MockObject (''User'', 7 :: nat)) 1000,
       0 :: nat)))
     (generateKey ''User'' ''/app/contracts/user.ts'') = None \<and>
   store (fst (onWatchEvent (Some countReload) (Unlink ''/ext/types/legacy.ts'')
      (set' globalSchemaCache ''User'' ''/app/contracts/user.ts'' (MockObject (''User'', 7 :: nat)) 1000,
       0 :: nat)))
     (generateKey ''User'' ''/app/contracts/user.ts'') =
     Some \<lparr>interfaceName = ''User'', schemaFilePath = ''/app/contracts/user.ts'',
            schema = MockObject (''User'', 7), lastUpdated = 1000\<rparr>"
proof -
  let ?sc = "set' globalSchemaCache ''User'' ''/app/contracts/user.ts''
      (MockObject (''User'', 7 :: nat)) 1000"
  let ?v = "\<lparr>interfaceName = ''User'', schemaFilePath = ''/app/contracts/user.ts'',
            schema = MockObject (''User'', 7 :: nat), lastUpdated = 1000\<rparr>"
  have s: "store ?sc (generateKey ''User'' ''/app/contracts/user.ts'') = Some ?v"
    by (simp add: store_set' globalSchemaCache_def newSchemaCache_def)
  note a = watcher_events [of "Unlink ''/app/contracts/user.ts''" "''/app/contracts/user.ts''"
      "Some countReload" ?sc "0 :: nat", THEN conjunct1, rule_format]
  note b = watcher_events [of "Unlink ''/ext/types/legacy.ts''" "''/ext/types/legacy.ts''"
      "Some countReload" ?sc "0 :: nat", THEN conjunct1, rule_format]
  from a s have 1: "store (fst (onWatchEvent (Some countReload) (Unlink ''/app/contracts/user.ts'')
      (?sc, 0 :: nat))) (generateKey ''User'' ''/app/contracts/user.ts'') = None"
    by simp
  from b s have 2: "store (fst (onWatchEvent (Some countReload) (Unlink ''/ext/types/legacy.ts'')
      (?sc, 0 :: nat))) (generateKey ''User'' ''/app/contracts/user.ts'') = Some ?v"
    by simp
  from s 1 2 show ?thesis by blast
qed

text \<open>
  The claim as stated has the watcher trigger a rebuild after the invalidation.  On a
  removal the handler does nothing after the invalidation: even the callback, the only
  way out of the watcher, is not called (on a change it is called once).
\<close>

theorem watcher_unlink_counterexample:
  "snd (onWatchEvent (Some countReload) (Unlink ''/app/contracts/user.ts'')
     (globalSchemaCache :: (string \<times> nat) schemaCache, 0)) = 0 \<and>
   snd (onWatchEvent (Some countReload) (Change ''/app/contracts/user.ts'')
     (globalSchemaCache :: (string \<times> nat) schemaCache, 0)) = 1"
  by (simp add: countReload_def)

section \<open>Start-up\<close>

lemma mkdirSync_exists:
  "mkdirSync d p = Some d' \<Longrightarrow>
   existsSync d' q \<longleftrightarrow> existsSync d q \<or> q = p \<or> isAncestor q p"
  by (auto simp: mkdirSync_def split: if_splits)

lemma action_after_check:
  assumes "(if \<not> existsSync d (resolve (dir opts)) then mkdirSync d (resolve (dir opts)) else Some d) =
           Some d'"
  shows "if (\<exists>es. externalDir opts = Some es \<and> (\<exists>e\<in>set es. \<not> existsSync d' (resolve e)))
         then action resolve opts d = Exit 1
         else \<exists>cfg. action resolve opts d = StartServer cfg d' \<and>
                contractsDir cfg = resolve (dir opts)"
proof (cases "externalDir opts")
  case None
  with assms show ?thesis by (simp add: action_def Let_def)
next
  case (Some es)
  with assms show ?thesis by (auto simp: action_def Let_def)
qed

text \<open>
  Claim C9, as amended.  A contracts directory that does not exist is created, with its
  missing ancestors, when \<open>mkdirSync\<close> succeeds.  The external directories are tested
  after that: if one of them does not exist then, the process exits with code 1;
  otherwise the server is started.  An external directory that is missing at start-up
  and is neither the contracts directory nor one of its ancestors is still missing at
  the test, so the process exits.
\<close>

theorem startup_directories:
  "(\<not> existsSync d (resolve (dir opts)) \<and> \<not> mkdirThrows d (resolve (dir opts)) \<longrightarrow>
      (\<exists>d'. mkdirSync d (resolve (dir opts)) = Some d' \<and> existsSync d' (resolve (dir opts)) \<and>
         (\<forall>q. existsSync d' q \<longleftrightarrow>
            existsSync d q \<or> q = resolve (dir opts) \<or> isAncestor q (resolve (dir opts))) \<and>
         (if (\<exists>es. externalDir opts = Some es \<and> (\<exists>e\<in>set es. \<not> existsSync d' (resolve e)))
          then action resolve opts d = Exit 1
          else \<exists>cfg. action resolve opts d = StartServer cfg d' \<and>
                 contractsDir cfg = resolve (dir opts)))) \<and>
   (existsSync d (resolve (dir opts)) \<longrightarrow>
      (if (\<exists>es. externalDir opts = Some es \<and> (\<exists>e\<in>set es. \<not> existsSync d (resolve e)))
       then action resolve opts d = Exit 1
       else \<exists>cfg. action resolve opts d = StartServer cfg d \<and>
              contractsDir cfg = resolve (dir opts))) \<and>
   ((existsSync d (resolve (dir opts)) \<or> \<not> mkdirThrows d (resolve (dir opts))) \<and>
    externalDir opts = Some dirs \<and> e \<in> set dirs \<and> \<not> existsSync d (resolve e) \<and>
    resolve e \<noteq> resolve (dir opts) \<and> \<not> isAncestor (resolve e) (resolve (dir opts)) \<longrightarrow>
      action resolve opts d = Exit 1)"
proof (intro conjI impI)
  assume h: "\<not> existsSync d (resolve (dir opts)) \<and> \<not> mkdirThrows d (resolve (dir opts))"
  then obtain d' where d': "mkdirSync d (resolve (dir opts)) = Some d'"
    by (simp add: mkdirSync_def)
  with h have step: "(if \<not> existsSync d (resolve (dir opts))
      then mkdirSync d (resolve (dir opts)) else Some d) = Some d'" by simp
  from mkdirSync_exists [OF d'] action_after_check [where resolve = resolve and opts = opts and d = d and d' = d', OF step] d'
  show "\<exists>d'. mkdirSync d (resolve (dir opts)) = Some d' \<and> existsSync d' (resolve (dir opts)) \<and>
         (\<forall>q. existsSync d' q \<longleftrightarrow>
            existsSync d q \<or> q = resolve (dir opts) \<or> isAncestor q (resolve (dir opts))) \<and>
         (if (\<exists>es. externalDir opts = Some es \<and> (\<exists>e\<in>set es. \<not> existsSync d' (resolve e)))
          then action resolve opts d = Exit 1
          else \<exists>cfg. action resolve opts d = StartServer cfg d' \<and>
                 contractsDir cfg = resolve (dir opts))"
    by (intro exI [of _ d']) simp
next
  assume "existsSync d (resolve (dir opts))"
  then have "(if \<not> existsSync d (resolve (dir opts))
      then mkdirSync d (resolve (dir opts)) else Some d) = Some d" by simp
  from action_after_check [where resolve = resolve and opts = opts and d = d and d' = d, OF this]
  show "if (\<exists>es. externalDir opts = Some es \<and> (\<exists>e\<in>set es. \<not> existsSync d (resolve e)))
       then action resolve opts d = Exit 1
       else \<exists>cfg. action resolve opts d = StartServer cfg d \<and>
              contractsDir cfg = resolve (dir opts)" .
next
  assume h: "(existsSync d (resolve (dir opts)) \<or> \<not> mkdirThrows d (resolve (dir opts))) \<and>
    externalDir opts = Some dirs \<and> e \<in> set dirs \<and> \<not> existsSync d (resolve e) \<and>
    resolve e \<noteq> resolve (dir opts) \<and> \<not> isAncestor (resolve e) (resolve (dir opts))"
  then have "\<exists>d'. (if \<not> existsSync d (resolve (dir opts))
      then mkdirSync d (resolve (dir opts)) else Some d) = Some d'"
    by (cases "existsSync d (resolve (dir opts))") (simp_all add: mkdirSync_def)
  then obtain d' where step: "(if \<not> existsSync d (resolve (dir opts))
      then mkdirSync d (resolve (dir opts)) else Some d) = Some d'" ..
  have "\<not> existsSync d' (resolve e)"
  proof (cases "existsSync d (resolve (dir opts))")
    case True
    with step h show ?thesis by auto
  next
    case False
    with step have "mkdirSync d (resolve (dir opts)) = Some d'" by simp
    from mkdirSync_exists [OF this, of "resolve e"] h show ?thesis by simp
  qed
  with h have "\<exists>es. externalDir opts = Some es \<and> (\<exists>e\<in>set es. \<not> existsSync d' (resolve e))"
    by auto
  with action_after_check [where resolve = resolve and opts = opts and d = d and d' = d', OF step] show "action resolve opts d = Exit 1" by simp
qed

theorem startup_directories_witness:
  "\<not> existsSync bareDisk ''/w/types/contracts'' \<and>
   \<not> mkdirThrows bareDisk ''/w/types/contracts'' \<and>
   \<not> existsSync bareDisk ''/w/shared'' \<and>
   action (\<lambda>p. p) siblingOptions bareDisk = Exit 1 \<and>
   (\<exists>d'. mkdirSync bareDisk ''/w/types/contracts'' = Some d' \<and>
      existsSync d' ''/w/types/contracts'')"
proof -
  have o: "dir siblingOptions = ''/w/types/contracts''"
    "externalDir siblingOptions = Some [''/w/shared'']"
    by (simp_all add: siblingOptions_def nestedOptions_def)
  have a: "\<not> existsSync bareDisk ''/w/types/contracts''" "\<not> mkdirThrows bareDisk ''/w/types/contracts''"
    "\<not> existsSync bareDisk ''/w/shared''"
    by (simp_all add: bareDisk_def)
  have n: "\<not> isAncestor ''/w/shared'' ''/w/types/contracts''"
    by (simp add: isAncestor_def)
  note t = startup_directories [of bareDisk "\<lambda>p. p" siblingOptions "[''/w/shared'']" "''/w/shared''"]
  from t [THEN conjunct2, THEN conjunct2] o a n
  have 1: "action (\<lambda>p. p) siblingOptions bareDisk = Exit 1" by simp
  from t [THEN conjunct1] o a
  have 2: "\<exists>d'. mkdirSync bareDisk ''/w/types/contracts'' = Some d' \<and>
      existsSync d' ''/w/types/contracts''" by auto
  from a 1 2 show ?thesis by blast
qed

text \<open>
  The claim as stated fails for an external directory that is an ancestor of the missing
  contracts directory: creating the latter creates the former, and the server starts.
\<close>

theorem startup_ancestor_counterexample:
  "externalDir nestedOptions = Some [''/w/types''] \<and>
   \<not> existsSync bareDisk ''/w/types'' \<and>
   action (\<lambda>p. p) nestedOptions bareDisk \<noteq> Exit 1"
  by (simp add: nestedOptions_def bareDisk_def action_def mkdirSync_def isAncestor_def Let_def)

section \<open>A failed upstream attempt\<close>

lemma sample_find_proxy:
  "findTypeForUrl sampleInflector sampleFs ''/api/invoices'' (allDirs proxyConfig) = Inr None"
  by code_simp

text \<open>
  Claim C7.  With an upstream that refuses the connection and a URL that resolves to no
  type, the request is handed to the proxy, the single attempt fails, and \<open>onError\<close>
  runs; its guard keeps it from writing the 502 response, so the caller receives no
  response at all.  Nothing is retried, no mock is served and the cache is untouched.
\<close>

theorem upstream_failure_gets_no_response:
  "serve proxyConfig sampleInflector sampleFs sampleGenerators deadUpstream
     expressResInstanceofResponse now rnd hdr ''/api/invoices'' sc = (NoResponse, sc)"
proof -
  have t: "truthyString (targetUrl proxyConfig)"
    by (simp add: truthyString_def proxyConfig_def)
  then have "createProxyFallback proxyConfig sampleInflector sampleFs ''/api/invoices'' = Inr Proxy"
    by (simp add: createProxyFallback_def sample_find_proxy)
  with t show ?thesis
    by (simp add: serve_def Let_def deadUpstream_def onError_def expressResInstanceofResponse_def)
qed

end
